theory Spec2Isabelle
  imports Main "HOL-Library.AList" "HOL-Library.Sublist"
begin

section \<open>The schema layer of sqlsmith (pkg/internal/sqlsmith/schema.go)\<close>

subsection \<open>Values shared by all operations\<close>

text \<open>
  \<open>tree.Name\<close> is a Go string. A Go \<open>error\<close> value is opaque here: it carries a message.
  A call either returns or panics; a panic unwinds through the callers.
\<close>

type_synonym Name = string

datatype error = Error string

datatype 'a outcome = Panic string | Return 'a

subsection \<open>The database collaborator\<close>

text \<open>
  \<open>db.Query\<close> returns an error or a row iterator. The iterator is the list of what
  \<open>rows.Scan\<close> gives for each successive row (an error or the decoded row) together with
  what \<open>rows.Err()\<close> reports once \<open>rows.Next()\<close> has returned false.
\<close>

record 'row rows =
  scans :: "(error + 'row) list"
  rows_err :: "error option"

text \<open>One row of the query over \<open>information_schema.columns\<close> (the eight scanned values).\<close>

record col_row =
  catalog :: Name
  schema :: Name
  name :: Name
  col :: Name
  typ_name :: string
  computed :: bool
  nullable :: bool
  hidden :: bool

text \<open>One row of \<open>SHOW INDEXES FROM t\<close> (the four scanned values).\<close>

record idx_row =
  idx :: Name
  icol :: Name
  storing :: bool
  ascending :: bool

text \<open>
  Modelled from the spec: \<open>tree.TableName\<close> and \<open>tree.NewTableName\<close> of the AST library,
  which is not part of this file: a qualified table identifier (catalog + name).
\<close>

record TableName =
  CatalogName :: Name
  ObjectName :: Name

definition NewTableName :: "Name \<Rightarrow> Name \<Rightarrow> TableName" where
  "NewTableName db tbl = \<lparr>CatalogName = db, ObjectName = tbl\<rparr>"

text \<open>
  The database handle: the answer to the column query of \<open>extractTables\<close>, and the answer
  to the index query of \<open>extractIndexes\<close>, whose text is built from the table name.
\<close>

record DB =
  columns_query :: "error + col_row rows"
  indexes_query :: "TableName \<Rightarrow> error + idx_row rows"

subsection \<open>Tables and columns\<close>

text \<open>
  \<open>tree.ColumnTableDef\<close>, restricted to the fields this file writes: \<open>Name\<close>, \<open>Type\<close>,
  \<open>Nullable.Nullability\<close> and \<open>Computed.Computed\<close>. The zero value of the third is
  \<open>NotNull\<close>, that of the fourth is false.
\<close>

datatype Nullability = NotNull | Null | SilentNull

record 'ty ColumnTableDef =
  colName :: Name
  colType :: 'ty
  colNullability :: Nullability
  colComputed :: bool

record 'ty tableRef =
  TableName :: TableName
  Columns :: "'ty ColumnTableDef list"

text \<open>The local variables of \<open>extractTables\<close> that live across loop iterations.\<close>

record 'ty grouper =
  firstTime :: bool
  lastCatalog :: Name
  lastSchema :: Name
  lastName :: Name
  tables_acc :: "'ty tableRef list"
  currentCols :: "'ty ColumnTableDef list"

definition grouper_init :: "'ty grouper" where
  "grouper_init = \<lparr>firstTime = True, lastCatalog = [], lastSchema = [], lastName = [],
     tables_acc = [], currentCols = []\<rparr>"

text \<open>The closure \<open>emit\<close>.\<close>

definition emit :: "'ty grouper \<Rightarrow> 'ty grouper" where
  "emit g =
     (if lastSchema g \<noteq> ''public'' then g
      else g\<lparr>tables_acc := tables_acc g @
             [\<lparr>TableName = NewTableName (lastCatalog g) (lastName g), Columns = currentCols g\<rparr>]\<rparr>)"

text \<open>
  The body of the loop for a row that is not hidden. \<open>typeFromName\<close> lives in another file
  of the package; it is a parameter here, and \<open>None\<close> is its failing fast (a panic) on a
  type name it does not know.
\<close>

definition row_body ::
  "(string \<Rightarrow> 'ty option) \<Rightarrow> col_row \<Rightarrow> 'ty grouper \<Rightarrow> 'ty grouper option" where
  "row_body typeFromName r g =
     (let g1 = (if firstTime g
                then g\<lparr>lastCatalog := catalog r, lastSchema := schema r, lastName := name r\<rparr>
                else g);
          g2 = g1\<lparr>firstTime := False\<rparr>;
          g3 = (if lastCatalog g2 \<noteq> catalog r \<or> lastSchema g2 \<noteq> schema r \<or> lastName g2 \<noteq> name r
                then (emit g2)\<lparr>currentCols := []\<rparr>
                else g2)
      in case typeFromName (typ_name r) of
           None \<Rightarrow> None
         | Some coltyp \<Rightarrow>
             let column = \<lparr>colName = col r, colType = coltyp,
                           colNullability = (if nullable r then Null else NotNull),
                           colComputed = (if computed r then True else False)\<rparr>
             in Some (g3\<lparr>currentCols := currentCols g3 @ [column],
                        lastCatalog := catalog r, lastSchema := schema r, lastName := name r\<rparr>))"

datatype 'g loop_exit = Exhausted 'g | ScanFailed error | TypePanic string

text \<open>The loop \<open>for rows.Next()\<close> of \<open>extractTables\<close>.\<close>

fun rows_loop ::
  "(string \<Rightarrow> 'ty option) \<Rightarrow> (error + col_row) list \<Rightarrow> 'ty grouper \<Rightarrow> 'ty grouper loop_exit" where
  "rows_loop typeFromName [] g = Exhausted g"
| "rows_loop typeFromName (Inl e # rest) g = ScanFailed e"
| "rows_loop typeFromName (Inr r # rest) g =
     (if hidden r then rows_loop typeFromName rest g
      else case row_body typeFromName r g of
             None \<Rightarrow> TypePanic (typ_name r)
           | Some g' \<Rightarrow> rows_loop typeFromName rest g')"

text \<open>
  \<open>extractTables\<close> returns the pair (tables, error) of the Go function: \<open>nil\<close> and the error
  when the query or a scan fails, and the tables built together with \<open>rows.Err()\<close> at the end.
\<close>

definition extractTables ::
  "(string \<Rightarrow> 'ty option) \<Rightarrow> DB \<Rightarrow> ('ty tableRef list \<times> error option) outcome" where
  "extractTables typeFromName d =
     (case columns_query d of
        Inl e \<Rightarrow> Return ([], Some e)
      | Inr rs \<Rightarrow>
          (case rows_loop typeFromName (scans rs) grouper_init of
             ScanFailed e \<Rightarrow> Return ([], Some e)
           | TypePanic m \<Rightarrow> Panic m
           | Exhausted g \<Rightarrow>
               Return (tables_acc (if \<not> firstTime g then emit g else g), rows_err rs)))"

subsection \<open>Indexes\<close>

text \<open>
  \<open>tree.CreateIndex\<close>, restricted to the fields this file writes (\<open>Name\<close>, \<open>Table\<close>,
  \<open>Columns\<close>, \<open>Storing\<close>), and \<open>tree.IndexElem\<close>. A Go map that the file ranges over or
  measures with \<open>len\<close> is an association list with distinct keys, read with \<open>map_of\<close>;
  Go leaves the order of \<open>range\<close> over a map open, the order of the list stands for it and
  no theorem below depends on it.
\<close>

datatype Direction = DefaultDirection | Ascending | Descending

record IndexElem =
  Column :: Name
  Direction :: Direction

record CreateIndex =
  idxName :: Name
  idxTable :: TableName
  idxColumns :: "IndexElem list"
  idxStoring :: "Name list"

type_synonym index_map = "(Name \<times> CreateIndex) list"

type_synonym index_catalog = "(TableName \<times> index_map) list"

text \<open>
  The body of the inner loop of \<open>extractIndexes\<close> after a successful scan. The map holds
  pointers, so appending through \<open>create\<close> changes the entry of the map.
\<close>

definition index_row :: "TableName \<Rightarrow> idx_row \<Rightarrow> index_map \<Rightarrow> index_map" where
  "index_row t r indexes =
     (let create = (case map_of indexes (idx r) of
                      None \<Rightarrow> \<lparr>idxName = idx r, idxTable = t, idxColumns = [], idxStoring = []\<rparr>
                    | Some c \<Rightarrow> c)
      in AList.update (idx r)
           (if storing r then create\<lparr>idxStoring := idxStoring create @ [icol r]\<rparr>
            else create\<lparr>idxColumns := idxColumns create @
                   [\<lparr>Column = icol r,
                     Direction = (if \<not> ascending r then Descending else Ascending)\<rparr>]\<rparr>)
           indexes)"

fun index_rows_loop :: "TableName \<Rightarrow> (error + idx_row) list \<Rightarrow> index_map \<Rightarrow> error + index_map" where
  "index_rows_loop t [] indexes = Inr indexes"
| "index_rows_loop t (Inl e # rest) indexes = Inl e"
| "index_rows_loop t (Inr r # rest) indexes = index_rows_loop t rest (index_row t r indexes)"

text \<open>The loop over the tables; every error path returns \<open>nil\<close> and the error.\<close>

fun tables_loop ::
  "DB \<Rightarrow> 'ty tableRef list \<Rightarrow> index_catalog \<Rightarrow> index_catalog \<times> error option" where
  "tables_loop d [] ret = (ret, None)"
| "tables_loop d (t # ts) ret =
     (case indexes_query d (TableName t) of
        Inl e \<Rightarrow> ([], Some e)
      | Inr rows \<Rightarrow>
          (case index_rows_loop (TableName t) (scans rows) [] of
             Inl e \<Rightarrow> ([], Some e)
           | Inr indexes \<Rightarrow>
               (case rows_err rows of
                  Some e \<Rightarrow> ([], Some e)
                | None \<Rightarrow> tables_loop d ts (AList.update (TableName t) indexes ret))))"

definition extractIndexes :: "DB \<Rightarrow> 'ty tableRef list \<Rightarrow> index_catalog \<times> error option" where
  "extractIndexes d tables = tables_loop d tables []"

subsection \<open>The schema cache\<close>

text \<open>
  The \<open>Smither\<close>, restricted to the fields this file uses. \<open>trace\<close> records, in program
  order, the operations on \<open>s.lock\<close> and the calls of \<open>s.rnd.Intn\<close>. \<open>Intn\<close> belongs to
  the standard library: it is a parameter that maps the generator's state and the bound
  to the number drawn and the next state.
\<close>

datatype event = Lock | Unlock | RLock | RUnlock | RndIntn

record ('ty, 'r) Smither =
  db :: "DB option"
  tables :: "'ty tableRef list"
  indexes :: index_catalog
  rnd :: 'r
  trace :: "event list"

definition log :: "event \<Rightarrow> ('ty, 'r) Smither \<Rightarrow> ('ty, 'r) Smither" where
  "log ev s = s\<lparr>trace := trace s @ [ev]\<rparr>"

text \<open>
  \<open>ReloadSchemas\<close>. The deferred \<open>Unlock\<close> runs on every way out, also on a panic of
  \<open>extractTables\<close>, which leaves before the assignment to \<open>s.tables\<close>.
\<close>

definition ReloadSchemas ::
  "(string \<Rightarrow> 'ty option) \<Rightarrow> ('ty, 'r) Smither \<Rightarrow> error option outcome \<times> ('ty, 'r) Smither" where
  "ReloadSchemas typeFromName s =
     (case db s of
        None \<Rightarrow> (Return None, s)
      | Some d \<Rightarrow>
          let s1 = log Lock s in
          (case extractTables typeFromName d of
             Panic m \<Rightarrow> (Panic m, log Unlock s1)
           | Return (ts, err) \<Rightarrow>
               let s2 = s1\<lparr>tables := ts\<rparr> in
               (case err of
                  Some e \<Rightarrow> (Return (Some e), log Unlock s2)
                | None \<Rightarrow>
                    (case extractIndexes d (tables s2) of
                       (ixs, err') \<Rightarrow> (Return err', log Unlock (s2\<lparr>indexes := ixs\<rparr>))))))"

text \<open>
  \<open>getRandTable\<close>: \<open>(nil, false)\<close> is \<open>None\<close>. The index expression panics outside the
  bounds of the slice.
\<close>

definition getRandTable ::
  "('r \<Rightarrow> nat \<Rightarrow> nat \<times> 'r) \<Rightarrow> ('ty, 'r) Smither \<Rightarrow>
     'ty tableRef option outcome \<times> ('ty, 'r) Smither" where
  "getRandTable Intn s =
     (let s1 = log RLock s in
      if length (tables s1) = 0 then (Return None, log RUnlock s1)
      else
        let (i, r') = Intn (rnd s1) (length (tables s1));
            s2 = log RndIntn (s1\<lparr>rnd := r'\<rparr>)
        in if i < length (tables s2)
           then (Return (Some (tables s2 ! i)), log RUnlock s2)
           else (Panic ''index out of range'', log RUnlock s2))"

text \<open>\<open>getIndexes\<close>: reading a key that the map lacks gives the nil map.\<close>

definition getIndexes :: "TableName \<Rightarrow> ('ty, 'r) Smither \<Rightarrow> index_map \<times> ('ty, 'r) Smither" where
  "getIndexes table s =
     (let s1 = log RLock s
      in (case map_of (indexes s1) table of None \<Rightarrow> [] | Some m \<Rightarrow> m, log RUnlock s1))"

record TableIndexName =
  Table :: TableName
  Index :: Name

text \<open>\<open>getRandTableIndex\<close>: \<open>(nil, nil, false)\<close> is \<open>None\<close>.\<close>

definition getRandTableIndex ::
  "('r \<Rightarrow> nat \<Rightarrow> nat \<times> 'r) \<Rightarrow> TableName \<Rightarrow> ('ty, 'r) Smither \<Rightarrow>
     (TableIndexName \<times> CreateIndex) option outcome \<times> ('ty, 'r) Smither" where
  "getRandTableIndex Intn table s =
     (let (indexes, s1) = getIndexes table s in
      if length indexes = 0 then (Return None, s1)
      else
        let names = map fst indexes;
            (i, r') = Intn (rnd s1) (length names);
            s2 = log RndIntn (s1\<lparr>rnd := r'\<rparr>)
        in if i < length names
           then (case map_of indexes (names ! i) of
                   None \<Rightarrow> (Panic ''nil pointer dereference'', s2)
                 | Some ix \<Rightarrow> (Return (Some (\<lparr>Table = table, Index = idxName ix\<rparr>, ix)), s2))
           else (Panic ''index out of range'', s2))"

definition getRandIndex ::
  "('r \<Rightarrow> nat \<Rightarrow> nat \<times> 'r) \<Rightarrow> ('ty, 'r) Smither \<Rightarrow>
     (TableIndexName \<times> CreateIndex) option outcome \<times> ('ty, 'r) Smither" where
  "getRandIndex Intn s =
     (case getRandTable Intn s of
        (Panic m, s1) \<Rightarrow> (Panic m, s1)
      | (Return None, s1) \<Rightarrow> (Return None, s1)
      | (Return (Some tableRef), s1) \<Rightarrow> getRandTableIndex Intn (TableName tableRef) s1)"

subsection \<open>The operator and function catalogs\<close>

text \<open>
  Modelled from the spec: the types of the AST library that the two catalogs read, none of
  them part of this file. A type \<open>types.T\<close> is known here by its semantic category (the field
  \<open>SemanticType\<close>) and by its identifier (the result of the method \<open>Oid()\<close>);
  \<open>FixedReturnType\<close> is the result of the method of that name. A registry that is a Go map
  is the list of its entries in the order \<open>range\<close> visits them.
\<close>

type_synonym Oid = nat

record T =
  SemanticType :: nat
  Oid :: Oid

type_synonym BinaryOperator = nat

record BinOp =
  LeftType :: T
  RightType :: T
  ReturnType :: T

record operator =
  BinOp :: BinOp
  Operator :: BinaryOperator

text \<open>Reading a key that a map of slices lacks gives the nil slice.\<close>

definition slice_at :: "('k \<rightharpoonup> 'v list) \<Rightarrow> 'k \<Rightarrow> 'v list" where
  "slice_at m k = (case m k of None \<Rightarrow> [] | Some l \<Rightarrow> l)"

text \<open>The body of the inner loop of \<open>operators\<close>.\<close>

definition add_operator ::
  "BinaryOperator \<Rightarrow> BinOp \<Rightarrow> (Oid \<rightharpoonup> operator list) \<Rightarrow> (Oid \<rightharpoonup> operator list)" where
  "add_operator BinaryOperator bo m =
     m(Oid (ReturnType bo) \<mapsto>
         slice_at m (Oid (ReturnType bo)) @ [\<lparr>BinOp = bo, Operator = BinaryOperator\<rparr>])"

definition operators :: "(BinaryOperator \<times> BinOp list) list \<Rightarrow> (Oid \<rightharpoonup> operator list)" where
  "operators BinOps =
     fold (\<lambda>(BinaryOperator, overload) m. fold (add_operator BinaryOperator) overload m)
          BinOps Map.empty"

datatype FunctionClass = NormalClass | AggregateClass | WindowClass | GeneratorClass

record Overload =
  Info :: string
  FixedReturnType :: T

record FunctionDefinition =
  Name :: string
  Class :: FunctionClass
  Category :: string
  Private :: bool
  Definition :: "Overload list"

text \<open>The struct \<open>function\<close> of the file.\<close>

record function_entry =
  fn_def :: FunctionDefinition
  fn_overload :: Overload

definition strings_Contains :: "string \<Rightarrow> string \<Rightarrow> bool" where
  "strings_Contains s substr = sublist substr s"

text \<open>
  The body of the loop over the overloads of one definition. It works on the inner map
  \<open>m[def.Class]\<close>, which is one and the same map object throughout the loop.
  \<open>types.AnyNonArray\<close> is a parameter.
\<close>

definition overload_body ::
  "T list \<Rightarrow> FunctionDefinition \<Rightarrow> Overload \<Rightarrow> (Oid \<rightharpoonup> function_entry list) \<Rightarrow>
     (Oid \<rightharpoonup> function_entry list)" where
  "overload_body AnyNonArray d ov inner =
     (if strings_Contains (Info ov) ''Not usable'' then inner
      else
        let typ = FixedReturnType ov;
            found = fold (\<lambda>nonArrayTyp found.
                            if SemanticType typ = SemanticType nonArrayTyp then True else found)
                         AnyNonArray False
        in if \<not> found then inner
           else inner(Oid typ \<mapsto> slice_at inner (Oid typ) @ [\<lparr>fn_def = d, fn_overload = ov\<rparr>]))"

text \<open>
  The body of the loop over the definitions: \<open>m1\<close> is \<open>m\<close> once the entry of the class
  exists, \<open>inner\<close> is that entry.
\<close>

definition def_body ::
  "T list \<Rightarrow> FunctionDefinition \<Rightarrow> (FunctionClass \<rightharpoonup> (Oid \<rightharpoonup> function_entry list)) \<Rightarrow>
     (FunctionClass \<rightharpoonup> (Oid \<rightharpoonup> function_entry list))" where
  "def_body AnyNonArray d m =
     (if Name d = ''pg_sleep'' then m
      else if strings_Contains (Name d) ''crdb_internal.force_'' then m
      else
        let inner = (case m (Class d) of None \<Rightarrow> Map.empty | Some mm \<Rightarrow> mm);
            m1 = m(Class d \<mapsto> inner)
        in if Category d = ''Compatibility'' then m1
           else if Private d then m1
           else m1(Class d \<mapsto> fold (overload_body AnyNonArray d) (Definition d) inner))"

text \<open>The variable \<open>functions\<close> of the file.\<close>

definition functions_map ::
  "T list \<Rightarrow> FunctionDefinition list \<Rightarrow> (FunctionClass \<rightharpoonup> (Oid \<rightharpoonup> function_entry list))" where
  "functions_map AnyNonArray FunDefs = fold (def_body AnyNonArray) FunDefs Map.empty"

text \<open>Reading \<open>functions[class][oid]\<close>, as Go reads a map of maps of slices.\<close>

definition functions_at ::
  "(FunctionClass \<rightharpoonup> (Oid \<rightharpoonup> function_entry list)) \<Rightarrow> FunctionClass \<Rightarrow> Oid \<Rightarrow> function_entry list" where
  "functions_at m c ret = (case m c of None \<Rightarrow> [] | Some inner \<Rightarrow> slice_at inner ret)"

subsection \<open>The grouping as the specification words it\<close>

text \<open>
  The key of a row, the rows that are not hidden, and the partition of a keyed sequence into
  its maximal contiguous runs of equal key.
\<close>

definition row_key :: "col_row \<Rightarrow> Name \<times> Name \<times> Name" where
  "row_key r = (catalog r, schema r, name r)"

definition retained :: "col_row list \<Rightarrow> col_row list" where
  "retained rws = filter (\<lambda>r. \<not> hidden r) rws"

definition drop_hidden :: "(error + col_row) list \<Rightarrow> (error + col_row) list" where
  "drop_hidden ss = filter (\<lambda>s. case s of Inl e \<Rightarrow> True | Inr r \<Rightarrow> \<not> hidden r) ss"

fun prepend_run :: "'k \<times> 'a list \<Rightarrow> ('k \<times> 'a list) list \<Rightarrow> ('k \<times> 'a list) list" where
  "prepend_run (k, xs) [] = [(k, xs)]"
| "prepend_run (k, xs) ((k', ys) # R) =
     (if k = k' then (k, xs @ ys) # R else (k, xs) # (k', ys) # R)"

fun runs :: "('k \<times> 'a) list \<Rightarrow> ('k \<times> 'a list) list" where
  "runs [] = []"
| "runs ((k, x) # rest) = prepend_run (k, [x]) (runs rest)"

definition row_runs :: "col_row list \<Rightarrow> ((Name \<times> Name \<times> Name) \<times> col_row list) list" where
  "row_runs rws = runs (map (\<lambda>r. (row_key r, r)) rws)"

text \<open>The column a row stands for, once its type name is resolved by \<open>f\<close>.\<close>

definition column_of :: "(string \<Rightarrow> 'ty) \<Rightarrow> col_row \<Rightarrow> 'ty ColumnTableDef" where
  "column_of f r = \<lparr>colName = col r, colType = f (typ_name r),
                     colNullability = (if nullable r then Null else NotNull),
                     colComputed = computed r\<rparr>"

definition public_run :: "(Name \<times> Name \<times> Name) \<times> 'a \<Rightarrow> bool" where
  "public_run kr = (fst (snd (fst kr)) = ''public'')"

definition run_table ::
  "(Name \<times> Name \<times> Name) \<times> 'ty ColumnTableDef list \<Rightarrow> 'ty tableRef" where
  "run_table kr =
     \<lparr>TableName = NewTableName (fst (fst kr)) (snd (snd (fst kr))), Columns = snd kr\<rparr>"

definition run_tableRef ::
  "(string \<Rightarrow> 'ty) \<Rightarrow> (Name \<times> Name \<times> Name) \<times> col_row list \<Rightarrow> 'ty tableRef" where
  "run_tableRef f kr = run_table (fst kr, map (column_of f) (snd kr))"

text \<open>
  A table is made of a run of rows: the rows are not hidden, they all bear the table's
  catalog and name and the schema \<open>public\<close>, and the columns of the table are the columns of
  the rows, one for one and in order.
\<close>

definition table_of_run :: "(string \<Rightarrow> 'ty option) \<Rightarrow> 'ty tableRef \<Rightarrow> col_row list \<Rightarrow> bool" where
  "table_of_run typeFromName t run =
     (run \<noteq> [] \<and>
      list_all (\<lambda>rw. \<not> hidden rw \<and>
                  row_key rw = (CatalogName (TableName t), ''public'', ObjectName (TableName t))) run \<and>
      map Some (map colType (Columns t)) = map (\<lambda>rw. typeFromName (typ_name rw)) run \<and>
      map colName (Columns t) = map col run \<and>
      map colNullability (Columns t) = map (\<lambda>rw. if nullable rw then Null else NotNull) run \<and>
      map colComputed (Columns t) = map computed run)"

subsection \<open>Example inputs\<close>

text \<open>
  A resolver of type names that knows four names, and the rows of two tables of the schema
  \<open>public\<close>: \<open>t1\<close> with the columns \<open>col_a\<close>, \<open>col_b\<close> and the hidden \<open>rowid\<close>, and \<open>t2\<close> with
  the column \<open>col_c\<close>.
\<close>

definition known_types :: "string \<Rightarrow> string option" where
  "known_types n = (if n \<in> set [''INT4'', ''STRING'', ''BOOL'', ''INT8''] then Some n else None)"

definition row_a :: col_row where
  "row_a = \<lparr>catalog = ''defaultdb'', schema = ''public'', name = ''t1'', col = ''col_a'',
     typ_name = ''INT4'', computed = False, nullable = True, hidden = False\<rparr>"

definition row_b :: col_row where
  "row_b = \<lparr>catalog = ''defaultdb'', schema = ''public'', name = ''t1'', col = ''col_b'',
     typ_name = ''STRING'', computed = False, nullable = False, hidden = False\<rparr>"

definition row_rowid :: col_row where
  "row_rowid = \<lparr>catalog = ''defaultdb'', schema = ''public'', name = ''t1'', col = ''rowid'',
     typ_name = ''INT8'', computed = False, nullable = False, hidden = True\<rparr>"

definition row_c :: col_row where
  "row_c = \<lparr>catalog = ''defaultdb'', schema = ''public'', name = ''t2'', col = ''col_c'',
     typ_name = ''BOOL'', computed = False, nullable = False, hidden = False\<rparr>"

definition no_indexes :: "TableName \<Rightarrow> error + idx_row rows" where
  "no_indexes t = Inr \<lparr>scans = [], rows_err = None\<rparr>"

definition columns_db :: "col_row list \<Rightarrow> DB" where
  "columns_db rws =
     \<lparr>columns_query = Inr \<lparr>scans = map Inr rws, rows_err = None\<rparr>, indexes_query = no_indexes\<rparr>"

definition table_t1 :: "string tableRef" where
  "table_t1 = \<lparr>TableName = NewTableName ''defaultdb'' ''t1'',
     Columns = [\<lparr>colName = ''col_a'', colType = ''INT4'', colNullability = Null, colComputed = False\<rparr>,
                \<lparr>colName = ''col_b'', colType = ''STRING'', colNullability = NotNull,
                  colComputed = False\<rparr>]\<rparr>"

definition table_t2 :: "string tableRef" where
  "table_t2 = \<lparr>TableName = NewTableName ''defaultdb'' ''t2'',
     Columns = [\<lparr>colName = ''col_c'', colType = ''BOOL'', colNullability = NotNull,
                  colComputed = False\<rparr>]\<rparr>"

text \<open>
  Two hidden rows that are all there is of a table \<open>t1h\<close>, and a row of another schema.
\<close>

definition row_h1 :: col_row where
  "row_h1 = \<lparr>catalog = ''defaultdb'', schema = ''public'', name = ''t1h'', col = ''rowid'',
     typ_name = ''INT8'', computed = False, nullable = False, hidden = True\<rparr>"

definition row_h2 :: col_row where
  "row_h2 = \<lparr>catalog = ''defaultdb'', schema = ''public'', name = ''t1h'', col = ''crdb_region'',
     typ_name = ''STRING'', computed = False, nullable = False, hidden = True\<rparr>"

definition row_pg :: col_row where
  "row_pg = \<lparr>catalog = ''defaultdb'', schema = ''pg_catalog'', name = ''pg_class'', col = ''oid'',
     typ_name = ''INT8'', computed = False, nullable = False, hidden = False\<rparr>"

subsection \<open>The indexes as the specification words them\<close>

text \<open>
  The rows of one index name, the key columns they give (the rows that are not storing, in
  order, with their direction) and the storing columns they give.
\<close>

definition index_rows :: "Name \<Rightarrow> idx_row list \<Rightarrow> idx_row list" where
  "index_rows i rws = filter (\<lambda>r. idx r = i) rws"

definition key_columns :: "idx_row list \<Rightarrow> IndexElem list" where
  "key_columns rws =
     map (\<lambda>r. \<lparr>Column = icol r, Direction = (if ascending r then Ascending else Descending)\<rparr>)
         (filter (\<lambda>r. \<not> storing r) rws)"

definition storing_columns :: "idx_row list \<Rightarrow> Name list" where
  "storing_columns rws = map icol (filter storing rws)"

definition extend_index :: "CreateIndex \<Rightarrow> idx_row list \<Rightarrow> CreateIndex" where
  "extend_index c rws =
     c\<lparr>idxColumns := idxColumns c @ key_columns rws, idxStoring := idxStoring c @ storing_columns rws\<rparr>"

text \<open>
  The index pass of a table succeeds: the query returns rows, every row decodes and the
  iteration ends without an error.
\<close>

definition index_pass_ok :: "DB \<Rightarrow> TableName \<Rightarrow> bool" where
  "index_pass_ok d tn =
     (case indexes_query d tn of
        Inl e \<Rightarrow> False
      | Inr rs \<Rightarrow>
          list_all (\<lambda>s. case s of Inl e \<Rightarrow> False | Inr r \<Rightarrow> True) (scans rs) \<and>
          rows_err rs = None)"

text \<open>
  Example index rows: the index \<open>idx1\<close> with the key column \<open>a\<close> and the storing column \<open>b\<close>,
  and an index whose rows name the column \<open>a\<close> both as a key and as a storing column.
\<close>

definition idx1_rows :: "idx_row list" where
  "idx1_rows = [\<lparr>idx = ''idx1'', icol = ''a'', storing = False, ascending = True\<rparr>,
                \<lparr>idx = ''idx1'', icol = ''b'', storing = True, ascending = False\<rparr>]"

definition overlap_rows :: "idx_row list" where
  "overlap_rows = [\<lparr>idx = ''idx1'', icol = ''a'', storing = False, ascending = True\<rparr>,
                   \<lparr>idx = ''idx1'', icol = ''a'', storing = True, ascending = False\<rparr>]"

definition same_indexes :: "idx_row list \<Rightarrow> TableName \<Rightarrow> error + idx_row rows" where
  "same_indexes rws t = Inr \<lparr>scans = map Inr rws, rows_err = None\<rparr>"

definition index_db :: "idx_row list \<Rightarrow> DB" where
  "index_db rws =
     \<lparr>columns_query = Inr \<lparr>scans = [], rows_err = None\<rparr>, indexes_query = same_indexes rws\<rparr>"

definition idx1_index :: CreateIndex where
  "idx1_index = \<lparr>idxName = ''idx1'', idxTable = NewTableName ''defaultdb'' ''t1'',
     idxColumns = [\<lparr>Column = ''a'', Direction = Ascending\<rparr>], idxStoring = [''b'']\<rparr>"

definition overlap_index :: CreateIndex where
  "overlap_index = \<lparr>idxName = ''idx1'', idxTable = NewTableName ''defaultdb'' ''t1'',
     idxColumns = [\<lparr>Column = ''a'', Direction = Ascending\<rparr>], idxStoring = [''a'']\<rparr>"

subsection \<open>The lock discipline\<close>

text \<open>
  \<open>guarded h es\<close>: with the lock held \<open>h\<close> times at the start, every call of \<open>s.rnd.Intn\<close> in
  the trace \<open>es\<close> happens while the lock is held (shared or exclusive).
\<close>

fun guarded :: "nat \<Rightarrow> event list \<Rightarrow> bool" where
  "guarded h [] = True"
| "guarded h (Lock # es) = guarded (Suc h) es"
| "guarded h (RLock # es) = guarded (Suc h) es"
| "guarded h (Unlock # es) = guarded (h - 1) es"
| "guarded h (RUnlock # es) = guarded (h - 1) es"
| "guarded h (RndIntn # es) = (0 < h \<and> guarded h es)"

text \<open>
  Example caches: a generator whose state is a counter, databases that fail in the column
  query, in the decoding of a row, at the end of the iteration and in the index query of the
  table \<open>t2\<close>, and a cache built from a database handle, a table list and an index catalog.
\<close>

definition Intn_mod :: "nat \<Rightarrow> nat \<Rightarrow> nat \<times> nat" where
  "Intn_mod r n = (r mod n, Suc r)"

definition broken_columns_db :: DB where
  "broken_columns_db =
     \<lparr>columns_query = Inl (Error ''connection refused''), indexes_query = same_indexes []\<rparr>"

definition decode_error_db :: DB where
  "decode_error_db =
     \<lparr>columns_query = Inr \<lparr>scans = map Inr [row_a, row_rowid] @ Inl (Error ''bad row'') # [Inr row_c],
                             rows_err = None\<rparr>,
      indexes_query = same_indexes []\<rparr>"

definition iteration_error_db :: DB where
  "iteration_error_db =
     \<lparr>columns_query = Inr \<lparr>scans = map Inr [row_a, row_b], rows_err = Some (Error ''reset'')\<rparr>,
      indexes_query = same_indexes []\<rparr>"

definition failing_indexes :: "TableName \<Rightarrow> error + idx_row rows" where
  "failing_indexes t =
     (if t = NewTableName ''defaultdb'' ''t2'' then Inl (Error ''relation does not exist'')
      else Inr \<lparr>scans = map Inr idx1_rows, rows_err = None\<rparr>)"

definition broken_index_db :: DB where
  "broken_index_db =
     \<lparr>columns_query = Inr \<lparr>scans = map Inr [row_a, row_b, row_c], rows_err = None\<rparr>,
      indexes_query = failing_indexes\<rparr>"

definition decode_failing_indexes :: "TableName \<Rightarrow> error + idx_row rows" where
  "decode_failing_indexes t =
     (if t = NewTableName ''defaultdb'' ''t2''
      then Inr \<lparr>scans = map Inr idx1_rows @ Inl (Error ''bad index row'') # [], rows_err = None\<rparr>
      else Inr \<lparr>scans = map Inr idx1_rows, rows_err = None\<rparr>)"

definition index_decode_error_db :: DB where
  "index_decode_error_db =
     \<lparr>columns_query = Inr \<lparr>scans = map Inr [row_a, row_b, row_c], rows_err = None\<rparr>,
      indexes_query = decode_failing_indexes\<rparr>"

definition iteration_failing_indexes :: "TableName \<Rightarrow> error + idx_row rows" where
  "iteration_failing_indexes t =
     (if t = NewTableName ''defaultdb'' ''t2''
      then Inr \<lparr>scans = map Inr idx1_rows, rows_err = Some (Error ''index rows reset'')\<rparr>
      else Inr \<lparr>scans = map Inr idx1_rows, rows_err = None\<rparr>)"

definition index_iteration_error_db :: DB where
  "index_iteration_error_db =
     \<lparr>columns_query = Inr \<lparr>scans = map Inr [row_a, row_b, row_c], rows_err = None\<rparr>,
      indexes_query = iteration_failing_indexes\<rparr>"

definition cache_of ::
  "DB option \<Rightarrow> string tableRef list \<Rightarrow> index_catalog \<Rightarrow> (string, nat) Smither" where
  "cache_of d ts ixs = \<lparr>db = d, tables = ts, indexes = ixs, rnd = 0, trace = []\<rparr>"

definition t2_catalog :: index_catalog where
  "t2_catalog = [(NewTableName ''defaultdb'' ''t2'', [(''idx1'', idx1_index)])]"

definition t1_catalog :: index_catalog where
  "t1_catalog = [(NewTableName ''defaultdb'' ''t1'', [(''idx1'', idx1_index)])]"

subsection \<open>The catalogs as the specification words them\<close>

text \<open>
  Every overload of every operator of the registry, paired with its operator; the
  definitions and the overloads that the function catalog admits; every admitted overload of
  every admitted definition of the registry, paired with its definition.
\<close>

definition registry_operators :: "(BinaryOperator \<times> BinOp list) list \<Rightarrow> operator list" where
  "registry_operators BinOps =
     concat (map (\<lambda>(op, overload). map (\<lambda>bo. \<lparr>BinOp = bo, Operator = op\<rparr>) overload) BinOps)"

definition def_allowed :: "FunctionDefinition \<Rightarrow> bool" where
  "def_allowed d =
     (Name d \<noteq> ''pg_sleep'' \<and> \<not> strings_Contains (Name d) ''crdb_internal.force_'' \<and>
      Category d \<noteq> ''Compatibility'' \<and> \<not> Private d)"

definition overload_allowed :: "T list \<Rightarrow> Overload \<Rightarrow> bool" where
  "overload_allowed AnyNonArray ov =
     (\<not> strings_Contains (Info ov) ''Not usable'' \<and>
      SemanticType (FixedReturnType ov) \<in> SemanticType ` set AnyNonArray)"

definition registry_functions :: "T list \<Rightarrow> FunctionDefinition list \<Rightarrow> function_entry list" where
  "registry_functions AnyNonArray FunDefs =
     concat (map (\<lambda>d. if def_allowed d
                        then map (\<lambda>ov. \<lparr>fn_def = d, fn_overload = ov\<rparr>)
                               (filter (overload_allowed AnyNonArray) (Definition d))
                        else [])
                 FunDefs)"

text \<open>
  An example registry of operators: \<open>+\<close> (operator 3) on integers and on floats, and the
  concatenation (operator 10) of strings. Types: 20 is the integer, 701 the float, 25 the
  string, 1007 the array of integers.
\<close>

definition int_T :: T where "int_T = \<lparr>SemanticType = 1, Oid = 20\<rparr>"

definition float_T :: T where "float_T = \<lparr>SemanticType = 2, Oid = 701\<rparr>"

definition string_T :: T where "string_T = \<lparr>SemanticType = 6, Oid = 25\<rparr>"

definition int_array_T :: T where "int_array_T = \<lparr>SemanticType = 14, Oid = 1007\<rparr>"

definition plus_int :: BinOp where
  "plus_int = \<lparr>LeftType = int_T, RightType = int_T, ReturnType = int_T\<rparr>"

definition plus_float :: BinOp where
  "plus_float = \<lparr>LeftType = float_T, RightType = float_T, ReturnType = float_T\<rparr>"

definition concat_string :: BinOp where
  "concat_string = \<lparr>LeftType = string_T, RightType = string_T, ReturnType = string_T\<rparr>"

definition example_BinOps :: "(BinaryOperator \<times> BinOp list) list" where
  "example_BinOps = [(3, [plus_int, plus_float]), (10, [concat_string])]"

text \<open>
  An example registry of functions: \<open>length\<close> with a usable overload, an overload documented
  as not usable and an overload that returns an array; \<open>pg_sleep\<close>; a compatibility function;
  a private function; a function of the \<open>force\<close> family.
\<close>

definition ov_int :: Overload where
  "ov_int = \<lparr>Info = ''Calculates the number of characters.'', FixedReturnType = int_T\<rparr>"

definition ov_unusable :: Overload where
  "ov_unusable = \<lparr>Info = ''Not usable; exposed only for compatibility.'', FixedReturnType = int_T\<rparr>"

definition ov_array :: Overload where
  "ov_array = \<lparr>Info = ''Returns the lengths.'', FixedReturnType = int_array_T\<rparr>"

definition fn_length :: FunctionDefinition where
  "fn_length = \<lparr>Name = ''length'', Class = NormalClass, Category = ''String and byte'',
     Private = False, Definition = [ov_int, ov_unusable, ov_array]\<rparr>"

definition fn_pg_sleep :: FunctionDefinition where
  "fn_pg_sleep = \<lparr>Name = ''pg_sleep'', Class = NormalClass, Category = ''System info'',
     Private = False, Definition = [ov_int]\<rparr>"

definition fn_compat :: FunctionDefinition where
  "fn_compat = \<lparr>Name = ''pg_get_expr'', Class = NormalClass, Category = ''Compatibility'',
     Private = False, Definition = [ov_int]\<rparr>"

definition fn_private :: FunctionDefinition where
  "fn_private = \<lparr>Name = ''final_sum'', Class = AggregateClass, Category = ''Aggregate'',
     Private = True, Definition = [ov_int]\<rparr>"

definition fn_force :: FunctionDefinition where
  "fn_force = \<lparr>Name = ''crdb_internal.force_panic'', Class = NormalClass,
     Category = ''System info'', Private = False, Definition = [ov_int]\<rparr>"

definition example_FunDefs :: "FunctionDefinition list" where
  "example_FunDefs = [fn_pg_sleep, fn_length, fn_compat, fn_private, fn_force]"

definition example_AnyNonArray :: "T list" where
  "example_AnyNonArray = [int_T, float_T, string_T]"

section \<open>The row grouper\<close>

subsection \<open>Runs\<close>

lemma prepend_run_hd: "\<exists>ys R'. prepend_run (k, xs) R = (k, ys) # R'"
  by (cases R) auto

lemma prepend_run_same:
  "prepend_run (k, xs) (prepend_run (k, ys) R) = prepend_run (k, xs @ ys) R"
  by (cases R) auto

lemma prepend_run_other:
  "k \<noteq> k' \<Longrightarrow> prepend_run (k, xs) (prepend_run (k', ys) R) = (k, xs) # prepend_run (k', ys) R"
  using prepend_run_hd[of k' ys R] by auto

lemma prepend_run_fst: "fst ` set (prepend_run (k, xs) R) = insert k (fst ` set R)"
  by (cases R) (force split: if_splits)+

text \<open>
  The runs are a partition of the sequence, in order; no run is empty; neighbouring runs
  have different keys; every element of a run has the key of the run.
\<close>

lemma runs_concat: "concat (map snd (runs xs)) = map snd xs"
proof (induction xs)
  case Nil
  then show ?case by simp
next
  case (Cons a xs)
  obtain k x where a: "a = (k, x)" by (cases a)
  show ?case using Cons by (cases "runs xs") (auto simp: a)
qed

lemma runs_nonempty: "\<forall>kr\<in>set (runs xs). snd kr \<noteq> []"
proof (induction xs)
  case Nil
  then show ?case by simp
next
  case (Cons a xs)
  obtain k x where a: "a = (k, x)" by (cases a)
  show ?case using Cons by (cases "runs xs") (auto simp: a split: if_splits)
qed

lemma runs_distinct_adj: "distinct_adj (map fst (runs xs))"
proof (induction xs)
  case Nil
  then show ?case by simp
next
  case (Cons a xs)
  obtain k x where a: "a = (k, x)" by (cases a)
  show ?case using Cons by (cases "runs xs") (auto simp: a)
qed

lemma runs_fst: "fst ` set (runs xs) = fst ` set xs"
  by (induction xs rule: runs.induct) (simp_all add: prepend_run_fst)

lemma runs_keys:
  "\<forall>kr\<in>set (runs (map (\<lambda>r. (key r, r)) rs)). \<forall>r\<in>set (snd kr). key r = fst kr"
proof (induction rs)
  case Nil
  then show ?case by simp
next
  case (Cons a rs)
  show ?case using Cons
    by (cases "runs (map (\<lambda>r. (key r, r)) rs)") (auto split: if_splits)
qed

lemma runs_map:
  "runs (map (\<lambda>r. (key r, h r)) rs) =
     map (\<lambda>kr. (fst kr, map h (snd kr))) (runs (map (\<lambda>r. (key r, r)) rs))"
proof (induction rs)
  case Nil
  then show ?case by simp
next
  case (Cons a rs)
  show ?case using Cons
    by (cases "runs (map (\<lambda>r. (key r, r)) rs)") (auto split: if_splits)
qed

lemma row_runs_concat: "concat (map snd (row_runs rws)) = rws"
  using runs_concat[of "map (\<lambda>r. (row_key r, r)) rws"] by (simp add: row_runs_def comp_def)

lemma row_runs_keys: "kr \<in> set (row_runs rws) \<Longrightarrow> r \<in> set (snd kr) \<Longrightarrow> row_key r = fst kr"
  using runs_keys[of row_key rws] by (auto simp: row_runs_def)

lemma row_runs_nonempty: "kr \<in> set (row_runs rws) \<Longrightarrow> snd kr \<noteq> []"
  using runs_nonempty[of "map (\<lambda>r. (row_key r, r)) rws"] by (auto simp: row_runs_def)

lemma row_runs_distinct_adj: "distinct_adj (map fst (row_runs rws))"
  unfolding row_runs_def by (rule runs_distinct_adj)

lemma row_runs_subset: "kr \<in> set (row_runs rws) \<Longrightarrow> set (snd kr) \<subseteq> set rws"
proof -
  assume "kr \<in> set (row_runs rws)"
  then have "set (snd kr) \<subseteq> set (concat (map snd (row_runs rws)))" by auto
  then show ?thesis by (simp only: row_runs_concat)
qed

lemma tables_of_runs:
  "map run_table (filter public_run (runs (map (\<lambda>r. (row_key r, column_of f r)) rws))) =
     map (run_tableRef f) (filter public_run (row_runs rws))"
proof -
  have "filter public_run (map (\<lambda>kr. (fst kr, map (column_of f) (snd kr))) R) =
          map (\<lambda>kr. (fst kr, map (column_of f) (snd kr))) (filter public_run R)"
    for R :: "((Name \<times> Name \<times> Name) \<times> col_row list) list"
    by (induction R) (auto simp: public_run_def)
  then show ?thesis
    by (simp add: runs_map[of row_key "column_of f"] row_runs_def run_tableRef_def comp_def)
qed

subsection \<open>The loop\<close>

lemma row_body_next:
  assumes "\<not> firstTime g" "tfn (typ_name r) = Some (f (typ_name r))"
  shows "row_body tfn r g = Some
           (if (lastCatalog g, lastSchema g, lastName g) = row_key r
            then g\<lparr>currentCols := currentCols g @ [column_of f r]\<rparr>
            else (emit g)\<lparr>currentCols := [column_of f r],
                   lastCatalog := catalog r, lastSchema := schema r, lastName := name r\<rparr>)"
  using assms by (auto simp: row_body_def row_key_def column_of_def emit_def Let_def)

lemma row_body_first:
  assumes "firstTime g" "tfn (typ_name r) = Some (f (typ_name r))"
  shows "row_body tfn r g = Some
           (g\<lparr>firstTime := False, currentCols := currentCols g @ [column_of f r],
              lastCatalog := catalog r, lastSchema := schema r, lastName := name r\<rparr>)"
  using assms by (auto simp: row_body_def row_key_def column_of_def emit_def Let_def)

lemma row_body_None: "row_body tfn r g = None \<longleftrightarrow> tfn (typ_name r) = None"
  by (auto simp: row_body_def Let_def split: option.splits)

text \<open>
  With a group pending, the loop emits the pending group joined to the runs of the rows
  still to come.
\<close>

lemma rows_loop_pending:
  assumes "\<not> firstTime g"
    and "\<forall>r\<in>set rs. \<not> hidden r \<and> tfn (typ_name r) = Some (f (typ_name r))"
  shows "\<exists>g'. rows_loop tfn (map Inr rs) g = Exhausted g' \<and> \<not> firstTime g' \<and>
           tables_acc (emit g') = tables_acc g @ map run_table (filter public_run
              (prepend_run ((lastCatalog g, lastSchema g, lastName g), currentCols g)
                 (runs (map (\<lambda>r. (row_key r, column_of f r)) rs))))"
  using assms
proof (induction rs arbitrary: g)
  case Nil
  then show ?case by (simp add: emit_def public_run_def run_table_def)
next
  case (Cons r rs)
  have r: "\<not> hidden r" "tfn (typ_name r) = Some (f (typ_name r))" using Cons.prems by auto
  show ?case
  proof (cases "(lastCatalog g, lastSchema g, lastName g) = row_key r")
    case True
    let ?g = "g\<lparr>currentCols := currentCols g @ [column_of f r]\<rparr>"
    have b: "row_body tfn r g = Some ?g"
      using row_body_next[of g tfn r f] Cons.prems(1) r(2) True by simp
    from Cons.IH[of ?g] Cons.prems obtain g' where
      g': "rows_loop tfn (map Inr rs) ?g = Exhausted g'" "\<not> firstTime g'"
       "tables_acc (emit g') = tables_acc ?g @ map run_table (filter public_run
              (prepend_run ((lastCatalog ?g, lastSchema ?g, lastName ?g), currentCols ?g)
                 (runs (map (\<lambda>r. (row_key r, column_of f r)) rs))))" by auto
    show ?thesis using g' r b True by (simp add: prepend_run_same)
  next
    case False
    let ?g = "(emit g)\<lparr>currentCols := [column_of f r],
                   lastCatalog := catalog r, lastSchema := schema r, lastName := name r\<rparr>"
    have b: "row_body tfn r g = Some ?g"
      using row_body_next[of g tfn r f] Cons.prems(1) r(2) False by simp
    have ft: "\<not> firstTime ?g" using Cons.prems(1) by (simp add: emit_def)
    from Cons.IH[OF ft] Cons.prems obtain g' where
      g': "rows_loop tfn (map Inr rs) ?g = Exhausted g'" "\<not> firstTime g'"
       "tables_acc (emit g') = tables_acc ?g @ map run_table (filter public_run
              (prepend_run ((lastCatalog ?g, lastSchema ?g, lastName ?g), currentCols ?g)
                 (runs (map (\<lambda>r. (row_key r, column_of f r)) rs))))" by auto
    have e: "tables_acc ?g = tables_acc g @ map run_table (filter public_run
               [((lastCatalog g, lastSchema g, lastName g), currentCols g)])"
      by (simp add: emit_def public_run_def run_table_def)
    show ?thesis using g' r b False e by (simp add: prepend_run_other row_key_def)
  qed
qed

lemma rows_loop_init:
  assumes "\<forall>r\<in>set rs. \<not> hidden r \<and> tfn (typ_name r) = Some (f (typ_name r))"
  shows "\<exists>g'. rows_loop tfn (map Inr rs) grouper_init = Exhausted g' \<and>
           tables_acc (if \<not> firstTime g' then emit g' else g') =
             map run_table (filter public_run (runs (map (\<lambda>r. (row_key r, column_of f r)) rs)))"
proof (cases rs)
  case Nil
  then show ?thesis by (simp add: grouper_init_def)
next
  case (Cons r rest)
  let ?g = "grouper_init\<lparr>firstTime := False,
              currentCols := currentCols grouper_init @ [column_of f r],
              lastCatalog := catalog r, lastSchema := schema r, lastName := name r\<rparr> :: 'a grouper"
  have r: "\<not> hidden r" "tfn (typ_name r) = Some (f (typ_name r))" using assms Cons by auto
  have b: "row_body tfn r grouper_init = Some ?g"
    by (rule row_body_first) (simp_all add: grouper_init_def r)
  have "\<not> firstTime ?g" by simp
  from rows_loop_pending[OF this, of rest tfn f] assms Cons obtain g' where
      g': "rows_loop tfn (map Inr rest) ?g = Exhausted g'" "\<not> firstTime g'"
       "tables_acc (emit g') = tables_acc ?g @ map run_table (filter public_run
              (prepend_run ((lastCatalog ?g, lastSchema ?g, lastName ?g), currentCols ?g)
                 (runs (map (\<lambda>r. (row_key r, column_of f r)) rest))))" by auto
  show ?thesis using g' r b Cons by (simp add: grouper_init_def row_key_def)
qed

text \<open>A hidden row leaves the state of the loop as it is.\<close>

lemma rows_loop_drop_hidden: "rows_loop tfn (drop_hidden ss) g = rows_loop tfn ss g"
proof (induction tfn ss g rule: rows_loop.induct)
  case (1 tfn g)
  show ?case by (simp add: drop_hidden_def)
next
  case (2 tfn e rest g)
  show ?case by (simp add: drop_hidden_def)
next
  case (3 tfn r rest g)
  then show ?case by (auto simp: drop_hidden_def split: option.splits)
qed

lemma drop_hidden_map_Inr: "drop_hidden (map Inr rws) = map Inr (retained rws)"
  by (induction rws) (auto simp: drop_hidden_def retained_def)

lemma drop_hidden_append: "drop_hidden (xs @ ys) = drop_hidden xs @ drop_hidden ys"
  by (simp add: drop_hidden_def)

lemma drop_hidden_all_hidden: "\<forall>r\<in>set run. hidden r \<Longrightarrow> drop_hidden (map Inr run) = []"
  by (induction run) (auto simp: drop_hidden_def)

text \<open>The loop runs to the end only over rows that all decode and whose types all resolve.\<close>

lemma rows_loop_Exhausted:
  "rows_loop tfn ss g = Exhausted g' \<Longrightarrow>
     \<exists>rws. ss = map Inr rws \<and> (\<forall>r\<in>set (retained rws). tfn (typ_name r) \<noteq> None)"
proof (induction tfn ss g rule: rows_loop.induct)
  case (1 tfn g)
  show ?case by (rule exI[of _ "[]"]) (simp add: retained_def)
next
  case (2 tfn e rest g)
  then show ?case by simp
next
  case (3 tfn r rest g)
  show ?case
  proof (cases "hidden r")
    case True
    with 3 obtain rws where
      "rest = map Inr rws" "\<forall>r\<in>set (retained rws). tfn (typ_name r) \<noteq> None"
      by auto
    then show ?thesis using True by (intro exI[of _ "r # rws"]) (simp add: retained_def)
  next
    case False
    with 3(3) obtain g1 where
      g1: "row_body tfn r g = Some g1" "rows_loop tfn rest g1 = Exhausted g'"
      by (auto split: option.splits)
    with 3(2)[OF False g1(1)] obtain rws where
      "rest = map Inr rws" "\<forall>r\<in>set (retained rws). tfn (typ_name r) \<noteq> None" by auto
    moreover have "tfn (typ_name r) \<noteq> None" using g1(1) row_body_None[of tfn r g] by auto
    ultimately show ?thesis by (intro exI[of _ "r # rws"]) (simp add: retained_def)
  qed
qed

subsection \<open>What \<open>extractTables\<close> returns\<close>

lemma extractTables_rows:
  assumes q: "columns_query d = Inr rs" and s: "scans rs = map Inr rws"
    and t: "\<forall>r\<in>set (retained rws). tfn (typ_name r) = Some (f (typ_name r))"
  shows "extractTables tfn d =
           Return (map (run_tableRef f) (filter public_run (row_runs (retained rws))), rows_err rs)"
proof -
  have h: "\<forall>r\<in>set (retained rws). \<not> hidden r \<and> tfn (typ_name r) = Some (f (typ_name r))"
    using t by (simp add: retained_def)
  have "rows_loop tfn (scans rs) grouper_init = rows_loop tfn (map Inr (retained rws)) grouper_init"
    using rows_loop_drop_hidden[of tfn "scans rs" grouper_init] s
    by (simp add: drop_hidden_map_Inr)
  with rows_loop_init[OF h] show ?thesis using q
    by (auto simp: extractTables_def tables_of_runs)
qed

lemma extractTables_Return_nonempty:
  assumes q: "columns_query d = Inr rs" and r: "extractTables tfn d = Return (ts, err)"
    and ne: "ts \<noteq> []"
  shows "\<exists>rws. scans rs = map Inr rws \<and> (\<forall>r\<in>set (retained rws). tfn (typ_name r) \<noteq> None)"
proof -
  from q r ne obtain g where "rows_loop tfn (scans rs) grouper_init = Exhausted g"
    by (auto simp: extractTables_def split: loop_exit.splits)
  then show ?thesis by (rule rows_loop_Exhausted)
qed

lemma extractTables_drop_hidden:
  assumes "columns_query d = Inr rs"
  shows "extractTables tfn (d\<lparr>columns_query := Inr (rs\<lparr>scans := drop_hidden (scans rs)\<rparr>)\<rparr>) =
           extractTables tfn d"
  using assms by (simp add: extractTables_def rows_loop_drop_hidden split: loop_exit.splits)

text \<open>Every table returned is made of a run of rows of the input.\<close>

lemma extractTables_origin:
  assumes q: "columns_query d = Inr rs" and r: "extractTables tfn d = Return (ts, err)"
    and t: "t \<in> set ts"
  shows "\<exists>run. list_all (\<lambda>rw. Inr rw \<in> set (scans rs)) run \<and> table_of_run tfn t run"
proof -
  from t have "ts \<noteq> []" by auto
  from extractTables_Return_nonempty[OF q r this] obtain rws where
    rws: "scans rs = map Inr rws" "\<forall>r\<in>set (retained rws). tfn (typ_name r) \<noteq> None" by auto
  define f where "f = (\<lambda>n. the (tfn n))"
  have res: "\<forall>r\<in>set (retained rws). tfn (typ_name r) = Some (f (typ_name r))"
    using rws(2) by (auto simp: f_def)
  from extractTables_rows[OF q rws(1) res] r
  have "ts = map (run_tableRef f) (filter public_run (row_runs (retained rws)))" by simp
  with t obtain kr where kr: "kr \<in> set (row_runs (retained rws))" "public_run kr"
    "t = run_tableRef f kr" by auto
  have sub: "set (snd kr) \<subseteq> set (retained rws)" using kr(1) by (rule row_runs_subset)
  have key: "\<forall>rw\<in>set (snd kr). row_key rw = fst kr" using row_runs_keys[OF kr(1)] by auto
  have fk: "fst kr = (CatalogName (TableName t), ''public'', ObjectName (TableName t))"
    using kr(2,3) by (cases kr) (auto simp: run_tableRef_def run_table_def public_run_def NewTableName_def)
  have 1: "snd kr \<noteq> []" using kr(1) by (rule row_runs_nonempty)
  have 2: "\<forall>rw\<in>set (snd kr). Inr rw \<in> set (scans rs) \<and> \<not> hidden rw \<and>
            row_key rw = (CatalogName (TableName t), ''public'', ObjectName (TableName t))"
    using sub key fk rws(1) by (auto simp: retained_def)
  have 3: "map Some (map colType (Columns t)) = map (\<lambda>rw. tfn (typ_name rw)) (snd kr)"
    using sub res kr(3) by (auto simp: run_tableRef_def run_table_def column_of_def)
  have 4: "map colName (Columns t) = map col (snd kr)"
    "map colNullability (Columns t) = map (\<lambda>rw. if nullable rw then Null else NotNull) (snd kr)"
    "map colComputed (Columns t) = map computed (snd kr)"
    using kr(3) by (auto simp: run_tableRef_def run_table_def column_of_def)
  have 5: "list_all (\<lambda>rw. Inr rw \<in> set (scans rs)) (snd kr)"
    using 2 by (simp add: list_all_iff)
  have "table_of_run tfn t (snd kr)"
    unfolding table_of_run_def list_all_iff using 1 2 3 4 by simp
  with 5 show ?thesis by (intro exI[of _ "snd kr"] conjI)
qed

subsection \<open>The claims about the row grouper\<close>

lemmas example_rows_defs =
  row_a_def row_b_def row_c_def row_rowid_def row_h1_def row_h2_def row_pg_def
  columns_db_def known_types_def table_t1_def table_t2_def

lemmas extractTables_eval =
  extractTables_def grouper_init_def row_body_def emit_def NewTableName_def Let_def

lemmas row_runs_eval = row_runs_def row_key_def retained_def public_run_def

text \<open>
  C4, as amended. Let the rows that are not hidden form N contiguous runs by
  (catalog, schema, table): the runs are not empty, they make up these rows in order, the rows
  of a run bear its key and neighbouring runs differ in their keys. When every row decodes and
  every type name resolves, \<open>extractTables\<close> returns one table for each run of the schema
  \<open>public\<close>, in the order of the runs, with the columns of the run's rows in their order: N
  tables when every run is of the schema \<open>public\<close>, fewer when some run is not. The last run
  is emitted when the input is exhausted, and an empty input gives the empty list with the
  error of the iterator.
\<close>

theorem row_grouper_runs:
  assumes "columns_query d = Inr rs" and "scans rs = map Inr rws"
    and "\<forall>r\<in>set (retained rws). typeFromName (typ_name r) = Some (f (typ_name r))"
  shows "\<exists>ts. extractTables typeFromName d = Return (ts, rows_err rs) \<and>
           ts = map (run_tableRef f) (filter public_run (row_runs (retained rws))) \<and>
           concat (map snd (row_runs (retained rws))) = retained rws \<and>
           distinct_adj (map fst (row_runs (retained rws))) \<and>
           (\<forall>kr\<in>set (row_runs (retained rws)).
              snd kr \<noteq> [] \<and> (\<forall>r\<in>set (snd kr). row_key r = fst kr)) \<and>
           ((\<forall>kr\<in>set (row_runs (retained rws)). public_run kr) \<longrightarrow>
              length ts = length (row_runs (retained rws))) \<and>
           ((\<exists>kr\<in>set (row_runs (retained rws)). \<not> public_run kr) \<longrightarrow>
              length ts < length (row_runs (retained rws))) \<and>
           (rws = [] \<longrightarrow> ts = [])"
proof -
  let ?R = "row_runs (retained rws)"
  let ?ts = "map (run_tableRef f) (filter public_run ?R)"
  have 1: "extractTables typeFromName d = Return (?ts, rows_err rs)"
    using assms by (rule extractTables_rows)
  have 2: "concat (map snd ?R) = retained rws" by (rule row_runs_concat)
  have 6: "distinct_adj (map fst ?R)" by (rule row_runs_distinct_adj)
  have 7: "\<forall>kr\<in>set ?R. snd kr \<noteq> [] \<and> (\<forall>r\<in>set (snd kr). row_key r = fst kr)"
    using row_runs_nonempty[of _ "retained rws"] row_runs_keys[of _ "retained rws"] by blast
  have 3: "(\<forall>kr\<in>set ?R. public_run kr) \<longrightarrow> length ?ts = length ?R" by simp
  have 4: "(\<exists>kr\<in>set ?R. \<not> public_run kr) \<longrightarrow> length ?ts < length ?R"
    by (auto intro: length_filter_less)
  have 5: "rws = [] \<longrightarrow> ?ts = []" by (simp add: retained_def row_runs_def)
  show ?thesis by (intro exI[of _ ?ts] conjI) (rule 1 refl 2 6 7 3 4 5)+
qed

theorem row_grouper_runs_witness:
  "columns_query (columns_db [row_a, row_b, row_rowid, row_c]) =
     Inr \<lparr>scans = map Inr [row_a, row_b, row_rowid, row_c], rows_err = None\<rparr> \<and>
   list_all (\<lambda>r. known_types (typ_name r) = Some (typ_name r))
     (retained [row_a, row_b, row_rowid, row_c]) \<and>
   row_runs (retained [row_a, row_b, row_rowid, row_c]) =
     [((''defaultdb'', ''public'', ''t1''), [row_a, row_b]),
      ((''defaultdb'', ''public'', ''t2''), [row_c])] \<and>
   extractTables known_types (columns_db [row_a, row_b, row_rowid, row_c]) =
     Return ([table_t1, table_t2], None) \<and>
   row_runs (retained [row_a, row_pg, row_c]) =
     [((''defaultdb'', ''public'', ''t1''), [row_a]),
      ((''defaultdb'', ''pg_catalog'', ''pg_class''), [row_pg]),
      ((''defaultdb'', ''public'', ''t2''), [row_c])] \<and>
   (\<exists>ts. extractTables known_types (columns_db [row_a, row_pg, row_c]) = Return (ts, None) \<and>
      length ts = 2) \<and>
   extractTables known_types (columns_db []) = Return ([], None)"
proof -
  let ?f = "\<lambda>n::string. n"
  have q: "columns_query (columns_db rws) = Inr \<lparr>scans = map Inr rws, rows_err = None\<rparr>" for rws
    by (simp add: columns_db_def)
  have s: "scans \<lparr>scans = map Inr rws, rows_err = None\<rparr> = map Inr rws" for rws :: "col_row list"
    by simp
  have t1: "\<forall>r\<in>set (retained [row_a, row_b, row_rowid, row_c]).
              known_types (typ_name r) = Some (?f (typ_name r))"
    by (simp add: retained_def example_rows_defs)
  have t2: "\<forall>r\<in>set (retained [row_a, row_pg, row_c]).
              known_types (typ_name r) = Some (?f (typ_name r))"
    by (simp add: retained_def example_rows_defs)
  have t3: "\<forall>r\<in>set (retained []). known_types (typ_name r) = Some (?f (typ_name r))"
    by (simp add: retained_def)
  have r1: "row_runs (retained [row_a, row_b, row_rowid, row_c]) =
     [((''defaultdb'', ''public'', ''t1''), [row_a, row_b]),
      ((''defaultdb'', ''public'', ''t2''), [row_c])]"
    by (simp add: row_runs_eval example_rows_defs)
  have r2: "row_runs (retained [row_a, row_pg, row_c]) =
     [((''defaultdb'', ''public'', ''t1''), [row_a]),
      ((''defaultdb'', ''pg_catalog'', ''pg_class''), [row_pg]),
      ((''defaultdb'', ''public'', ''t2''), [row_c])]"
    by (simp add: row_runs_eval example_rows_defs)
  from row_grouper_runs[OF q s t1] obtain ts1 where
    ts1: "extractTables known_types (columns_db [row_a, row_b, row_rowid, row_c]) =
            Return (ts1, rows_err \<lparr>scans = map Inr [row_a, row_b, row_rowid, row_c],
                                   rows_err = None\<rparr>)"
      "ts1 = map (run_tableRef ?f)
               (filter public_run (row_runs (retained [row_a, row_b, row_rowid, row_c])))"
    by (elim exE conjE)
  have "ts1 = [table_t1, table_t2]"
    unfolding ts1(2) r1
    by (simp add: public_run_def run_tableRef_def run_table_def column_of_def
          NewTableName_def example_rows_defs)
  with ts1(1) have e1: "extractTables known_types (columns_db [row_a, row_b, row_rowid, row_c]) =
              Return ([table_t1, table_t2], None)" by simp
  from row_grouper_runs[OF q s t2] obtain ts2 where
    ts2: "extractTables known_types (columns_db [row_a, row_pg, row_c]) =
            Return (ts2, rows_err \<lparr>scans = map Inr [row_a, row_pg, row_c], rows_err = None\<rparr>)"
      "ts2 = map (run_tableRef ?f) (filter public_run (row_runs (retained [row_a, row_pg, row_c])))"
    by (elim exE conjE)
  have "length ts2 = 2" unfolding ts2(2) r2 by (simp add: public_run_def)
  with ts2(1) have e2: "\<exists>ts. extractTables known_types (columns_db [row_a, row_pg, row_c]) =
      Return (ts, None) \<and> length ts = 2" by (intro exI[of _ ts2]) simp
  from row_grouper_runs[OF q s t3] obtain ts3 where
    ts3: "extractTables known_types (columns_db []) =
            Return (ts3, rows_err (\<lparr>scans = map Inr [], rows_err = None\<rparr> :: col_row rows))"
      "([] :: col_row list) = [] \<longrightarrow> ts3 = []"
    by (elim exE conjE)
  from ts3 have e3: "extractTables known_types (columns_db []) = Return ([], None)" by simp
  have l: "list_all (\<lambda>r. known_types (typ_name r) = Some (typ_name r))
             (retained [row_a, row_b, row_rowid, row_c])"
    using t1 by (simp add: list_all_iff)
  show ?thesis by (intro conjI) (rule q l r1 e1 r2 e2 e3)+
qed

text \<open>
  C4 as stated fails on a run of hidden rows: one hidden row of a table of the schema
  \<open>public\<close> is one run, every run is of the schema \<open>public\<close>, and no table is returned.
\<close>

theorem row_grouper_hidden_run_counterexample:
  "row_runs [row_rowid] = [((''defaultdb'', ''public'', ''t1''), [row_rowid])] \<and>
   list_all public_run (row_runs [row_rowid]) \<and>
   length (row_runs [row_rowid]) = 1 \<and>
   extractTables known_types (columns_db [row_rowid]) = Return ([], None :: error option) \<and>
   length ([] :: string tableRef list) \<noteq> length (row_runs [row_rowid])"
  by (simp add: row_runs_eval extractTables_eval example_rows_defs)

text \<open>
  C8. A row with \<open>hidden = true\<close> contributes to no column of any table returned: the result
  of \<open>extractTables\<close> is the result on the input without its hidden rows, and the columns of
  every table returned are, one for one and in order, the columns of rows of the input that
  are not hidden.
\<close>

theorem hidden_rows_contribute_nothing:
  assumes "columns_query d = Inr rs"
  shows "extractTables typeFromName
           (d\<lparr>columns_query := Inr (rs\<lparr>scans := drop_hidden (scans rs)\<rparr>)\<rparr>) =
         extractTables typeFromName d \<and>
         (\<forall>ts err t. extractTables typeFromName d = Return (ts, err) \<and> t \<in> set ts \<longrightarrow>
            (\<exists>run. list_all (\<lambda>rw. Inr rw \<in> set (scans rs)) run \<and>
               list_all (\<lambda>rw. \<not> hidden rw) run \<and> table_of_run typeFromName t run))"
proof (intro conjI allI impI)
  show "extractTables typeFromName
           (d\<lparr>columns_query := Inr (rs\<lparr>scans := drop_hidden (scans rs)\<rparr>)\<rparr>) =
         extractTables typeFromName d"
    using assms by (rule extractTables_drop_hidden)
next
  fix ts err t
  assume a: "extractTables typeFromName d = Return (ts, err) \<and> t \<in> set ts"
  from extractTables_origin[OF assms conjunct1[OF a] conjunct2[OF a]] obtain run where
    r: "list_all (\<lambda>rw. Inr rw \<in> set (scans rs)) run" "table_of_run typeFromName t run"
    by (elim exE conjE)
  from r(2) have "list_all (\<lambda>rw. \<not> hidden rw) run"
    by (simp add: table_of_run_def list_all_iff)
  with r show "\<exists>run. list_all (\<lambda>rw. Inr rw \<in> set (scans rs)) run \<and>
               list_all (\<lambda>rw. \<not> hidden rw) run \<and> table_of_run typeFromName t run"
    by (intro exI[of _ run] conjI)
qed

theorem hidden_rows_contribute_nothing_witness:
  "columns_query (columns_db [row_a, row_b, row_rowid, row_c]) =
     Inr \<lparr>scans = map Inr [row_a, row_b, row_rowid, row_c], rows_err = None\<rparr> \<and>
   hidden row_rowid \<and>
   drop_hidden (map Inr [row_a, row_b, row_rowid, row_c]) =
     (map Inr [row_a, row_b, row_c] :: (error + col_row) list) \<and>
   extractTables known_types (columns_db [row_a, row_b, row_c]) =
     extractTables known_types (columns_db [row_a, row_b, row_rowid, row_c]) \<and>
   extractTables known_types (columns_db [row_a, row_b, row_rowid, row_c]) =
     Return ([table_t1, table_t2], None) \<and>
   (\<exists>run. list_all (\<lambda>rw. \<not> hidden rw) run \<and> table_of_run known_types table_t1 run) \<and>
   table_of_run known_types table_t1 [row_a, row_b]"
proof -
  let ?rs = "\<lparr>scans = map Inr [row_a, row_b, row_rowid, row_c], rows_err = None\<rparr>"
  have q: "columns_query (columns_db [row_a, row_b, row_rowid, row_c]) = Inr ?rs"
    by (simp add: columns_db_def)
  have h: "hidden row_rowid" by (simp add: row_rowid_def)
  have d: "drop_hidden (map Inr [row_a, row_b, row_rowid, row_c]) = map Inr [row_a, row_b, row_c]"
    by (simp add: drop_hidden_def example_rows_defs)
  have c: "(columns_db [row_a, row_b, row_rowid, row_c])
             \<lparr>columns_query := Inr (?rs\<lparr>scans := drop_hidden (scans ?rs)\<rparr>)\<rparr> =
           columns_db [row_a, row_b, row_c]"
    using d by (simp add: columns_db_def)
  have e: "extractTables known_types (columns_db [row_a, row_b, row_rowid, row_c]) =
             Return ([table_t1, table_t2], None)"
    by (simp add: extractTables_eval example_rows_defs)
  note w = hidden_rows_contribute_nothing[OF q, of known_types]
  have 1: "extractTables known_types (columns_db [row_a, row_b, row_c]) =
     extractTables known_types (columns_db [row_a, row_b, row_rowid, row_c])"
    using conjunct1[OF w] unfolding c .
  have m: "table_t1 \<in> set [table_t1, table_t2]" by simp
  from conjunct2[OF w, rule_format, OF conjI[OF e m]] obtain run where
    "list_all (\<lambda>rw. \<not> hidden rw) run" "table_of_run known_types table_t1 run"
    by (elim exE conjE)
  then have 2: "\<exists>run. list_all (\<lambda>rw. \<not> hidden rw) run \<and> table_of_run known_types table_t1 run"
    by (intro exI[of _ run] conjI)
  have 3: "table_of_run known_types table_t1 [row_a, row_b]"
    by (simp add: table_of_run_def row_key_def NewTableName_def example_rows_defs)
  show ?thesis by (intro conjI) (rule q h d 1 e 2 3)+
qed

text \<open>
  C10. When every row of a contiguous run is hidden, \<open>extractTables\<close> returns what it returns
  on the input without the run; it returns no table for a key of the schema \<open>public\<close> all of
  whose rows are hidden, and no table without columns.
\<close>

theorem all_hidden_run_absent:
  assumes "columns_query d = Inr rs" and "scans rs = pre @ map Inr run @ post"
    and "\<forall>r\<in>set run. hidden r"
  shows "extractTables typeFromName d =
           extractTables typeFromName (d\<lparr>columns_query := Inr (rs\<lparr>scans := pre @ post\<rparr>)\<rparr>) \<and>
         (\<forall>ts err c n. extractTables typeFromName d = Return (ts, err) \<and>
            (\<forall>rw. Inr rw \<in> set (pre @ post) \<and> row_key rw = (c, ''public'', n) \<longrightarrow> hidden rw) \<longrightarrow>
            (\<forall>t\<in>set ts. TableName t \<noteq> NewTableName c n)) \<and>
         (\<forall>ts err. extractTables typeFromName d = Return (ts, err) \<longrightarrow>
            (\<forall>t\<in>set ts. Columns t \<noteq> []))"
proof (intro conjI allI impI ballI)
  let ?d' = "d\<lparr>columns_query := Inr (rs\<lparr>scans := pre @ post\<rparr>)\<rparr>"
  let ?d'' = "?d'\<lparr>columns_query := Inr (rs\<lparr>scans := pre @ post\<rparr>
                \<lparr>scans := drop_hidden (scans (rs\<lparr>scans := pre @ post\<rparr>))\<rparr>)\<rparr>"
  have eq: "drop_hidden (scans rs) = drop_hidden (pre @ post)"
    using assms(2,3) by (simp add: drop_hidden_append drop_hidden_all_hidden)
  have q': "columns_query ?d' = Inr (rs\<lparr>scans := pre @ post\<rparr>)" by simp
  have "extractTables typeFromName ?d' = extractTables typeFromName ?d''"
    by (rule extractTables_drop_hidden[OF q', symmetric])
  also have "?d'' = d\<lparr>columns_query := Inr (rs\<lparr>scans := drop_hidden (scans rs)\<rparr>)\<rparr>"
    by (simp add: eq)
  also have "extractTables typeFromName \<dots> = extractTables typeFromName d"
    by (rule extractTables_drop_hidden[OF assms(1)])
  finally show "extractTables typeFromName d = extractTables typeFromName ?d'" by simp
next
  fix ts err c n t
  assume a: "extractTables typeFromName d = Return (ts, err) \<and>
            (\<forall>rw. Inr rw \<in> set (pre @ post) \<and> row_key rw = (c, ''public'', n) \<longrightarrow> hidden rw)"
    and t: "t \<in> set ts"
  from extractTables_origin[OF assms(1) conjunct1[OF a] t] obtain run' where
    r: "list_all (\<lambda>rw. Inr rw \<in> set (scans rs)) run'" "table_of_run typeFromName t run'"
    by (elim exE conjE)
  from r(2) have ne: "run' \<noteq> []" by (simp add: table_of_run_def)
  then obtain rw where rw: "rw \<in> set run'" by (cases run') auto
  from rw r(1) have k1: "Inr rw \<in> set (scans rs)" by (simp add: list_all_iff)
  from rw r(2) have k2: "\<not> hidden rw"
    and k3: "row_key rw = (CatalogName (TableName t), ''public'', ObjectName (TableName t))"
    by (simp_all add: table_of_run_def list_all_iff)
  from k1 k2 assms(2,3) have "Inr rw \<in> set (pre @ post)" by auto
  with a k2 have "row_key rw \<noteq> (c, ''public'', n)" by blast
  with k3 show "TableName t \<noteq> NewTableName c n" by (auto simp: NewTableName_def)
next
  fix ts err t
  assume a: "extractTables typeFromName d = Return (ts, err)" and t: "t \<in> set ts"
  from extractTables_origin[OF assms(1) a t] obtain run' where
    "table_of_run typeFromName t run'" by (elim exE conjE)
  then have "run' \<noteq> []" "map colName (Columns t) = map col run'"
    by (simp_all add: table_of_run_def)
  then show "Columns t \<noteq> []" by auto
qed

theorem all_hidden_run_absent_witness:
  "columns_query (columns_db [row_a, row_b, row_h1, row_h2, row_c]) =
     Inr \<lparr>scans = map Inr [row_a, row_b, row_h1, row_h2, row_c], rows_err = None\<rparr> \<and>
   (map Inr [row_a, row_b, row_h1, row_h2, row_c] :: (error + col_row) list) =
     map Inr [row_a, row_b] @ map Inr [row_h1, row_h2] @ map Inr [row_c] \<and>
   list_all hidden [row_h1, row_h2] \<and>
   extractTables known_types (columns_db [row_a, row_b, row_h1, row_h2, row_c]) =
     extractTables known_types (columns_db [row_a, row_b, row_c]) \<and>
   extractTables known_types (columns_db [row_a, row_b, row_h1, row_h2, row_c]) =
     Return ([table_t1, table_t2], None) \<and>
   list_all (\<lambda>t. TableName t \<noteq> NewTableName ''defaultdb'' ''t1h'' \<and> Columns t \<noteq> [])
     [table_t1, table_t2]"
proof -
  let ?rws = "[row_a, row_b, row_h1, row_h2, row_c]"
  let ?rs = "\<lparr>scans = map Inr ?rws, rows_err = None\<rparr>"
  let ?pre = "map Inr [row_a, row_b] :: (error + col_row) list"
  let ?post = "map Inr [row_c] :: (error + col_row) list"
  have q: "columns_query (columns_db ?rws) = Inr ?rs" by (simp add: columns_db_def)
  have s: "scans ?rs = ?pre @ map Inr [row_h1, row_h2] @ ?post" by simp
  have h: "\<forall>r\<in>set [row_h1, row_h2]. hidden r" by (simp add: row_h1_def row_h2_def)
  have c: "(columns_db ?rws)\<lparr>columns_query := Inr (?rs\<lparr>scans := ?pre @ ?post\<rparr>)\<rparr> =
           columns_db [row_a, row_b, row_c]"
    by (simp add: columns_db_def)
  have k: "\<forall>rw. Inr rw \<in> set (?pre @ ?post) \<and> row_key rw = (''defaultdb'', ''public'', ''t1h'')
             \<longrightarrow> hidden rw"
    by (auto simp: row_key_def example_rows_defs)
  note w = all_hidden_run_absent[OF q s h, of known_types]
  have 1: "extractTables known_types (columns_db ?rws) =
           extractTables known_types (columns_db [row_a, row_b, row_c])"
    using conjunct1[OF w] unfolding c .
  have "extractTables known_types (columns_db [row_a, row_b, row_c]) =
          Return ([table_t1, table_t2], None)"
    by (simp add: extractTables_eval example_rows_defs)
  with 1 have 2: "extractTables known_types (columns_db ?rws) = Return ([table_t1, table_t2], None)"
    by simp
  have n: "\<forall>t\<in>set [table_t1, table_t2]. TableName t \<noteq> NewTableName ''defaultdb'' ''t1h''"
    by (rule conjunct1[OF conjunct2[OF w], rule_format, OF conjI[OF 2 k], THEN ballI])
  have e: "\<forall>t\<in>set [table_t1, table_t2]. Columns t \<noteq> []"
    by (rule conjunct2[OF conjunct2[OF w], rule_format, OF 2, THEN ballI])
  have 3: "list_all (\<lambda>t. TableName t \<noteq> NewTableName ''defaultdb'' ''t1h'' \<and> Columns t \<noteq> [])
     [table_t1, table_t2]"
    unfolding list_all_iff using n e by (intro ballI conjI) (erule bspec, assumption)+
  have l: "list_all hidden [row_h1, row_h2]" using h by (simp add: list_all_iff)
  have a: "map Inr ?rws = ?pre @ map Inr [row_h1, row_h2] @ ?post" by simp
  show ?thesis by (intro conjI) (rule q a l 1 2 3)+
qed

section \<open>The index assembler\<close>

subsection \<open>One table\<close>

lemma extend_index_Nil: "extend_index c [] = c"
  by (simp add: extend_index_def key_columns_def storing_columns_def)

lemma map_of_index_row:
  "map_of (index_row t r m) j =
     (if j = idx r
      then Some (extend_index
             (case map_of m (idx r) of
                None \<Rightarrow> \<lparr>idxName = idx r, idxTable = t, idxColumns = [], idxStoring = []\<rparr>
              | Some c \<Rightarrow> c) [r])
      else map_of m j)"
  by (simp add: index_row_def update_conv' extend_index_def key_columns_def storing_columns_def
        Let_def)

lemma extend_index_Cons: "extend_index (extend_index c [r]) rws = extend_index c (r # rws)"
  by (simp add: extend_index_def key_columns_def storing_columns_def)

text \<open>
  The loop over the rows of one table, from any map: the entry of an index name is its old
  entry, or a fresh one, extended by the rows of that name.
\<close>

lemma index_rows_loop_map_of:
  "\<exists>m'. index_rows_loop t (map Inr rws) m = Inr m' \<and>
     (\<forall>i. map_of m' i =
        (if index_rows i rws = [] then map_of m i
         else Some (extend_index
                (case map_of m i of
                   None \<Rightarrow> \<lparr>idxName = i, idxTable = t, idxColumns = [], idxStoring = []\<rparr>
                 | Some c \<Rightarrow> c) (index_rows i rws))))"
proof (induction rws arbitrary: m)
  case Nil
  show ?case by (simp add: index_rows_def)
next
  case (Cons r rws)
  from Cons[of "index_row t r m"] obtain m' where
    m': "index_rows_loop t (map Inr rws) (index_row t r m) = Inr m'"
      "\<And>i. map_of m' i =
        (if index_rows i rws = [] then map_of (index_row t r m) i
         else Some (extend_index
                (case map_of (index_row t r m) i of
                   None \<Rightarrow> \<lparr>idxName = i, idxTable = t, idxColumns = [], idxStoring = []\<rparr>
                 | Some c \<Rightarrow> c) (index_rows i rws)))"
    by blast
  have "map_of m' i =
        (if index_rows i (r # rws) = [] then map_of m i
         else Some (extend_index
                (case map_of m i of
                   None \<Rightarrow> \<lparr>idxName = i, idxTable = t, idxColumns = [], idxStoring = []\<rparr>
                 | Some c \<Rightarrow> c) (index_rows i (r # rws))))" for i
  proof (cases "i = idx r")
    case True
    then show ?thesis
      by (simp add: m'(2) map_of_index_row index_rows_def extend_index_Cons
            split: option.splits)
  next
    case False
    then show ?thesis
      by (simp add: m'(2) map_of_index_row index_rows_def)
  qed
  with m'(1) show ?case by simp
qed

lemma index_rows_loop_fresh:
  "\<exists>m'. index_rows_loop t (map Inr rws) [] = Inr m' \<and>
     (\<forall>i. map_of m' i =
        (if index_rows i rws = [] then None
         else Some \<lparr>idxName = i, idxTable = t, idxColumns = key_columns (index_rows i rws),
                    idxStoring = storing_columns (index_rows i rws)\<rparr>))"
proof -
  from index_rows_loop_map_of[of t rws "[]"] obtain m' where
    m': "index_rows_loop t (map Inr rws) [] = Inr m'"
      "\<And>i. map_of m' i =
        (if index_rows i rws = [] then map_of [] i
         else Some (extend_index
                (case map_of [] i of
                   None \<Rightarrow> \<lparr>idxName = i, idxTable = t, idxColumns = [], idxStoring = []\<rparr>
                 | Some c \<Rightarrow> c) (index_rows i rws)))"
    by blast
  have "map_of m' i =
        (if index_rows i rws = [] then None
         else Some \<lparr>idxName = i, idxTable = t, idxColumns = key_columns (index_rows i rws),
                    idxStoring = storing_columns (index_rows i rws)\<rparr>)" for i
    by (simp add: m'(2) extend_index_def)
  with m'(1) show ?thesis by blast
qed

lemma index_rows_loop_Nil: "index_rows_loop t [] [] = Inr []"
  by simp

text \<open>Rows that decode, a row that does not, and the entry of a table with rows.\<close>

lemma all_decoded:
  "list_all (\<lambda>s. case s of Inl e \<Rightarrow> False | Inr r \<Rightarrow> True) ss \<Longrightarrow> \<exists>rws. ss = map Inr rws"
proof (induction ss)
  case Nil
  show ?case by simp
next
  case (Cons s ss)
  then obtain rws where r: "ss = map Inr rws" by auto
  from Cons.prems obtain r0 where "s = Inr r0" by (cases s) auto
  with r show ?case by (intro exI[of _ "r0 # rws"]) simp
qed

lemma index_rows_loop_scan_error:
  "index_rows_loop t (map Inr rws @ Inl e # rest) m = Inl e"
  by (induction rws arbitrary: m) simp_all

lemma index_rows_loop_decoded:
  "\<exists>m'. index_rows_loop t (map Inr rws) m = Inr m'"
  by (induction rws arbitrary: m) simp_all

lemma index_rows_loop_Inr:
  "index_rows_loop t ss m = Inr m' \<Longrightarrow> \<exists>rws. ss = map Inr rws"
proof (induction t ss m rule: index_rows_loop.induct)
  case (1 t indexes)
  show ?case by simp
next
  case (2 t e rest indexes)
  then show ?case by simp
next
  case (3 t r rest indexes)
  then obtain rws where "rest = map Inr rws" by auto
  then show ?case by (intro exI[of _ "r # rws"]) simp
qed

lemma index_rows_loop_nonempty:
  assumes "index_rows_loop t (map Inr rws) [] = Inr m" and "rws \<noteq> []"
  shows "m \<noteq> []"
proof -
  from assms(2) obtain r rest where r: "rws = r # rest" by (cases rws) auto
  from index_rows_loop_fresh[of t rws] assms(1) have
    "map_of m (idx r) =
        (if index_rows (idx r) rws = [] then None
         else Some \<lparr>idxName = idx r, idxTable = t, idxColumns = key_columns (index_rows (idx r) rws),
                    idxStoring = storing_columns (index_rows (idx r) rws)\<rparr>)" by auto
  moreover have "index_rows (idx r) rws \<noteq> []" by (simp add: r index_rows_def)
  ultimately have "map_of m (idx r) \<noteq> None" by simp
  then show ?thesis by auto
qed

text \<open>Key and storing columns split the column names of the rows.\<close>

lemma key_columns_names: "map Column (key_columns rws) = map icol (filter (\<lambda>r. \<not> storing r) rws)"
  by (simp add: key_columns_def comp_def)

lemma key_storing_union:
  "set (map Column (key_columns rws)) \<union> set (storing_columns rws) = set (map icol rws)"
  unfolding key_columns_names storing_columns_def by auto

lemma key_storing_disjoint:
  assumes "\<forall>r\<in>set rws. \<forall>r'\<in>set rws. icol r = icol r' \<longrightarrow> storing r = storing r'"
  shows "set (map Column (key_columns rws)) \<inter> set (storing_columns rws) = {}"
proof -
  have False
    if a: "x \<in> set (map icol (filter (\<lambda>r. \<not> storing r) rws))"
      and b: "x \<in> set (map icol (filter storing rws))" for x
  proof -
    from a obtain r where r: "r \<in> set rws" "\<not> storing r" "icol r = x" by auto
    from b obtain r' where r': "r' \<in> set rws" "storing r'" "icol r' = x" by auto
    from r(3) r'(3) have "icol r = icol r'" by simp
    with assms r(1) r'(1) have "storing r = storing r'" by blast
    with r(2) r'(2) show False by simp
  qed
  then show ?thesis unfolding key_columns_names storing_columns_def by blast
qed

subsection \<open>All tables\<close>

lemma tables_loop_error: "tables_loop d ts ret = (ret', Some e) \<Longrightarrow> ret' = []"
  by (induction d ts ret rule: tables_loop.induct)
     (auto split: sum.splits option.splits)

text \<open>
  When the loop over the tables succeeds, every table of the list has the entry that its own
  index rows give, and the other keys are as before.
\<close>

lemma tables_loop_ok:
  assumes "tables_loop d ts ret = (ret', None)"
  shows "(\<forall>t\<in>set ts. \<exists>rs m. indexes_query d (TableName t) = Inr rs \<and> rows_err rs = None \<and>
             index_rows_loop (TableName t) (scans rs) [] = Inr m \<and>
             map_of ret' (TableName t) = Some m) \<and>
         (\<forall>k. k \<notin> TableName ` set ts \<longrightarrow> map_of ret' k = map_of ret k)"
  using assms
proof (induction d ts ret rule: tables_loop.induct)
  case (1 d ret)
  then show ?case by simp
next
  case (2 d t ts ret)
  from "2.prems" obtain rs m where
    h: "indexes_query d (TableName t) = Inr rs" "rows_err rs = None"
       "index_rows_loop (TableName t) (scans rs) [] = Inr m"
       "tables_loop d ts (AList.update (TableName t) m ret) = (ret', None)"
    by (auto split: sum.splits option.splits)
  from "2.IH"[OF h(1) h(3) h(2) h(4)] have
    ih1: "\<forall>t\<in>set ts. \<exists>rs m. indexes_query d (TableName t) = Inr rs \<and> rows_err rs = None \<and>
             index_rows_loop (TableName t) (scans rs) [] = Inr m \<and>
             map_of ret' (TableName t) = Some m"
    and ih2: "\<forall>k. k \<notin> TableName ` set ts \<longrightarrow>
             map_of ret' k = map_of (AList.update (TableName t) m ret) k"
    by blast+
  have hd: "map_of ret' (TableName t) = Some m"
  proof (cases "TableName t \<in> TableName ` set ts")
    case True
    then obtain t' where "t' \<in> set ts" "TableName t' = TableName t" by auto
    with ih1 h(1,3) show ?thesis by fastforce
  next
    case False
    with ih2 show ?thesis by (simp add: update_conv')
  qed
  show ?case
  proof (intro conjI ballI allI impI)
    fix t' assume "t' \<in> set (t # ts)"
    then show "\<exists>rs m. indexes_query d (TableName t') = Inr rs \<and> rows_err rs = None \<and>
             index_rows_loop (TableName t') (scans rs) [] = Inr m \<and>
             map_of ret' (TableName t') = Some m"
      using ih1 hd h(1,2,3) by auto
  next
    fix k assume "k \<notin> TableName ` set (t # ts)"
    then show "map_of ret' k = map_of ret k" using ih2 by (simp add: update_conv')
  qed
qed

text \<open>
  The loop over the tables passes the tables whose index pass succeeds and stops, with the
  error and no catalog, at the first table whose query, decoding or iteration fails.
\<close>

lemma tables_loop_step_ok:
  assumes "index_pass_ok d (TableName t)"
  shows "\<exists>ret'. tables_loop d (t # ts) ret = tables_loop d ts ret'"
proof -
  from assms obtain rs where rs: "indexes_query d (TableName t) = Inr rs"
    "list_all (\<lambda>s. case s of Inl e \<Rightarrow> False | Inr r \<Rightarrow> True) (scans rs)" "rows_err rs = None"
    by (auto simp: index_pass_ok_def split: sum.splits)
  from all_decoded[OF rs(2)] obtain rws where rws: "scans rs = map Inr rws" by auto
  from index_rows_loop_decoded[of "TableName t" rws "[]"] obtain m where
    "index_rows_loop (TableName t) (map Inr rws) [] = Inr m" by auto
  with rs rws have
    "tables_loop d (t # ts) ret = tables_loop d ts (AList.update (TableName t) m ret)" by simp
  then show ?thesis by (rule exI)
qed

lemma tables_loop_prefix_ok:
  "\<forall>t\<in>set pre. index_pass_ok d (TableName t) \<Longrightarrow>
     \<exists>ret'. tables_loop d (pre @ rest) ret = tables_loop d rest ret'"
proof (induction pre arbitrary: ret)
  case Nil
  have "tables_loop d ([] @ rest) ret = tables_loop d rest ret" by simp
  then show ?case by (rule exI)
next
  case (Cons t pre)
  from Cons.prems have "index_pass_ok d (TableName t)" by simp
  from tables_loop_step_ok[OF this, of "pre @ rest" ret] obtain r1 where
    r1: "tables_loop d (t # pre @ rest) ret = tables_loop d (pre @ rest) r1" by auto
  from Cons.IH[of r1] Cons.prems obtain r2 where
    "tables_loop d (pre @ rest) r1 = tables_loop d rest r2" by auto
  with r1 show ?case by (intro exI[of _ r2]) simp
qed

lemma tables_loop_query_error:
  "indexes_query d (TableName t) = Inl e \<Longrightarrow> tables_loop d (t # post) ret = ([], Some e)"
  by simp

lemma tables_loop_scan_error:
  "indexes_query d (TableName t) = Inr rs \<Longrightarrow> scans rs = map Inr rws @ Inl e # rest \<Longrightarrow>
     tables_loop d (t # post) ret = ([], Some e)"
  by (simp add: index_rows_loop_scan_error)

lemma tables_loop_rows_err:
  assumes "indexes_query d (TableName t) = Inr rs" and "scans rs = map Inr rws"
    and "rows_err rs = Some e"
  shows "tables_loop d (t # post) ret = ([], Some e)"
proof -
  from index_rows_loop_decoded[of "TableName t" rws "[]"] obtain m where
    "index_rows_loop (TableName t) (map Inr rws) [] = Inr m" by auto
  with assms show ?thesis by simp
qed

lemma extractIndexes_failure:
  assumes "\<forall>t'\<in>set pre. index_pass_ok d (TableName t')"
    and "\<And>ret. tables_loop d (t # post) ret = ([], Some e)"
  shows "extractIndexes d (pre @ t # post) = ([], Some e)"
proof -
  from tables_loop_prefix_ok[OF assms(1), of "t # post" "[]"] obtain r where
    "tables_loop d (pre @ t # post) [] = tables_loop d (t # post) r" by auto
  with assms(2)[of r] show ?thesis by (simp add: extractIndexes_def)
qed

subsection \<open>The claims about the index assembler\<close>

lemmas index_examples_defs =
  idx1_rows_def overlap_rows_def same_indexes_def index_db_def idx1_index_def overlap_index_def
  table_t1_def table_t2_def NewTableName_def

lemmas extractIndexes_eval = extractIndexes_def index_row_def Let_def

text \<open>
  C3, as amended. When \<open>extractIndexes\<close> succeeds, every table of the list has an entry in
  the catalog under its name: the rows of its index query all decoded, and the entry holds,
  for each index name among them, the index built from the rows of that name and nothing
  else. A table whose query yields no row has the empty entry (its key is present), a table
  whose query yields a row has an entry that is not empty, and the catalog has no other key.
\<close>

theorem index_catalog_entry_per_table:
  assumes "extractIndexes d ts = (ret, None)" and "t \<in> set ts"
  shows "(\<exists>rs rws m. indexes_query d (TableName t) = Inr rs \<and> rows_err rs = None \<and>
            scans rs = map Inr rws \<and>
            index_rows_loop (TableName t) (scans rs) [] = Inr m \<and>
            map_of ret (TableName t) = Some m \<and>
            (scans rs = [] \<longrightarrow> m = []) \<and> (scans rs \<noteq> [] \<longrightarrow> m \<noteq> []) \<and>
            (\<forall>i. map_of m i =
               (if index_rows i rws = [] then None
                else Some \<lparr>idxName = i, idxTable = TableName t,
                           idxColumns = key_columns (index_rows i rws),
                           idxStoring = storing_columns (index_rows i rws)\<rparr>))) \<and>
         dom (map_of ret) = TableName ` set ts"
proof
  from assms have l: "tables_loop d ts [] = (ret, None)" by (simp add: extractIndexes_def)
  note ok1 = conjunct1[OF tables_loop_ok[OF l]] and ok2 = conjunct2[OF tables_loop_ok[OF l]]
  from bspec[OF ok1 assms(2)] obtain rs m where
    h: "indexes_query d (TableName t) = Inr rs" "rows_err rs = None"
       "index_rows_loop (TableName t) (scans rs) [] = Inr m" "map_of ret (TableName t) = Some m"
    by (elim exE conjE)
  from index_rows_loop_Inr[OF h(3)] obtain rws where rws: "scans rs = map Inr rws" ..
  from h(3) rws have m: "index_rows_loop (TableName t) (map Inr rws) [] = Inr m" by simp
  have z: "scans rs = [] \<longrightarrow> m = []" using h(3) by auto
  have nz: "scans rs \<noteq> [] \<longrightarrow> m \<noteq> []"
  proof
    assume "scans rs \<noteq> []"
    with rws have "rws \<noteq> []" by auto
    with m show "m \<noteq> []" by (rule index_rows_loop_nonempty)
  qed
  from index_rows_loop_fresh[of "TableName t" rws] obtain m' where
    m': "index_rows_loop (TableName t) (map Inr rws) [] = Inr m'"
      "\<forall>i. map_of m' i =
        (if index_rows i rws = [] then None
         else Some \<lparr>idxName = i, idxTable = TableName t,
                    idxColumns = key_columns (index_rows i rws),
                    idxStoring = storing_columns (index_rows i rws)\<rparr>)"
    by (elim exE conjE)
  from m'(1) m have "m' = m" by simp
  with m'(2) have c: "\<forall>i. map_of m i =
        (if index_rows i rws = [] then None
         else Some \<lparr>idxName = i, idxTable = TableName t,
                    idxColumns = key_columns (index_rows i rws),
                    idxStoring = storing_columns (index_rows i rws)\<rparr>)" by simp
  show "\<exists>rs rws m. indexes_query d (TableName t) = Inr rs \<and> rows_err rs = None \<and>
            scans rs = map Inr rws \<and>
            index_rows_loop (TableName t) (scans rs) [] = Inr m \<and>
            map_of ret (TableName t) = Some m \<and>
            (scans rs = [] \<longrightarrow> m = []) \<and> (scans rs \<noteq> [] \<longrightarrow> m \<noteq> []) \<and>
            (\<forall>i. map_of m i =
               (if index_rows i rws = [] then None
                else Some \<lparr>idxName = i, idxTable = TableName t,
                           idxColumns = key_columns (index_rows i rws),
                           idxStoring = storing_columns (index_rows i rws)\<rparr>))"
    by (intro exI[of _ rs] exI[of _ rws] exI[of _ m] conjI) (rule h rws z nz c)+
  have "k \<in> dom (map_of ret) \<longleftrightarrow> k \<in> TableName ` set ts" for k
  proof (cases "k \<in> TableName ` set ts")
    case True
    then obtain t' where t': "t' \<in> set ts" "k = TableName t'" by auto
    from bspec[OF ok1 t'(1)] obtain m' where "map_of ret (TableName t') = Some m'"
      by (elim exE conjE)
    with True t'(2) show ?thesis by (simp add: domIff)
  next
    case False
    with ok2 have "map_of ret k = None" by simp
    with False show ?thesis by (simp add: domIff)
  qed
  then show "dom (map_of ret) = TableName ` set ts" by (rule set_eqI)
qed

theorem index_catalog_entry_per_table_witness:
  "extractIndexes (index_db []) [table_t1, table_t2] =
     ([(TableName table_t1, []), (TableName table_t2, [])], None) \<and>
   table_t2 \<in> set [table_t1, table_t2] \<and>
   (\<exists>rs. indexes_query (index_db []) (TableName table_t2) = Inr rs \<and> scans rs = []) \<and>
   map_of [(TableName table_t1, []), (TableName table_t2, [])] (TableName table_t2) =
     Some ([] :: index_map) \<and>
   extractIndexes (index_db idx1_rows) [table_t1] =
     ([(TableName table_t1, [(''idx1'', idx1_index)])], None) \<and>
   (\<exists>rs. indexes_query (index_db idx1_rows) (TableName table_t1) = Inr rs \<and> scans rs \<noteq> []) \<and>
   (\<exists>m. map_of [(TableName table_t1, [(''idx1'', idx1_index)])] (TableName table_t1) = Some m \<and>
      m \<noteq> [] \<and> map_of m ''idx1'' = Some idx1_index \<and> map_of m ''idx2'' = None) \<and>
   dom (map_of [(TableName table_t1, [(''idx1'', idx1_index)])]) = TableName ` set [table_t1]"
proof -
  let ?ret = "[(TableName table_t1, []), (TableName table_t2, [])] :: index_catalog"
  let ?ret1 = "[(TableName table_t1, [(''idx1'', idx1_index)])]"
  have e: "extractIndexes (index_db []) [table_t1, table_t2] = (?ret, None)"
    by (simp add: extractIndexes_eval index_examples_defs)
  have e1: "extractIndexes (index_db idx1_rows) [table_t1] = (?ret1, None)"
    by (simp add: extractIndexes_eval index_examples_defs)
  have t: "table_t2 \<in> set [table_t1, table_t2]" by simp
  have t1: "table_t1 \<in> set [table_t1]" by simp
  from conjunct1[OF index_catalog_entry_per_table[OF e t]] obtain rs rws m where
    h: "indexes_query (index_db []) (TableName table_t2) = Inr rs"
       "map_of ?ret (TableName table_t2) = Some m" "scans rs = [] \<longrightarrow> m = []"
    by (elim exE conjE)
  have z: "scans rs = []" using h(1) by (auto simp: index_db_def same_indexes_def)
  with h(1) have 1: "\<exists>rs. indexes_query (index_db []) (TableName table_t2) = Inr rs \<and>
      scans rs = []" by (intro exI[of _ rs] conjI)
  from z h(2,3) have 2: "map_of ?ret (TableName table_t2) = Some ([] :: index_map)" by simp
  from conjunct1[OF index_catalog_entry_per_table[OF e1 t1]] obtain rs1 rws1 m1 where
    h1: "indexes_query (index_db idx1_rows) (TableName table_t1) = Inr rs1"
       "scans rs1 = map Inr rws1"
       "map_of ?ret1 (TableName table_t1) = Some m1" "scans rs1 \<noteq> [] \<longrightarrow> m1 \<noteq> []"
       "\<forall>i. map_of m1 i =
               (if index_rows i rws1 = [] then None
                else Some \<lparr>idxName = i, idxTable = TableName table_t1,
                           idxColumns = key_columns (index_rows i rws1),
                           idxStoring = storing_columns (index_rows i rws1)\<rparr>)"
    by (elim exE conjE)
  have s1: "scans rs1 = map Inr idx1_rows"
    using h1(1) by (auto simp: index_db_def same_indexes_def)
  with h1(2) have r1: "rws1 = idx1_rows" by (simp add: inj_map_eq_map)
  have nz: "scans rs1 \<noteq> []" by (simp add: s1 idx1_rows_def)
  with h1(1) have 3: "\<exists>rs. indexes_query (index_db idx1_rows) (TableName table_t1) = Inr rs \<and>
      scans rs \<noteq> []" by (intro exI[of _ rs1] conjI)
  from h1(4) nz have ne: "m1 \<noteq> []" by (rule mp)
  have i1: "map_of m1 ''idx1'' = Some idx1_index"
    using spec[OF h1(5), of "''idx1''"] unfolding r1
    by (simp add: index_rows_def key_columns_def storing_columns_def idx1_rows_def
          idx1_index_def table_t1_def)
  have i2: "map_of m1 ''idx2'' = None"
    using spec[OF h1(5), of "''idx2''"] unfolding r1
    by (simp add: index_rows_def idx1_rows_def)
  have 4: "\<exists>m. map_of ?ret1 (TableName table_t1) = Some m \<and> m \<noteq> [] \<and>
      map_of m ''idx1'' = Some idx1_index \<and> map_of m ''idx2'' = None"
    by (intro exI[of _ m1] conjI) (rule h1(3) ne i1 i2)+
  note 5 = conjunct2[OF index_catalog_entry_per_table[OF e1 t1]]
  show ?thesis by (intro conjI) (rule e t 1 2 e1 3 4 5)+
qed

text \<open>
  C3 as stated fails: a table whose index query succeeds with no row is not omitted, its
  name is a key of the catalog.
\<close>

theorem index_catalog_zero_rows_counterexample:
  "indexes_query (index_db []) (TableName table_t1) = Inr \<lparr>scans = [], rows_err = None\<rparr> \<and>
   extractIndexes (index_db []) [table_t1] = ([(TableName table_t1, [])], None) \<and>
   map_of (fst (extractIndexes (index_db []) [table_t1])) (TableName table_t1) = Some [] \<and>
   TableName table_t1 \<in> dom (map_of (fst (extractIndexes (index_db []) [table_t1])))"
  by (simp add: extractIndexes_eval index_examples_defs)

text \<open>
  C5, as amended. When \<open>extractIndexes\<close> succeeds, the index built for the rows of one index
  name of a table bears that name and the table; its key columns are the rows that are not
  storing, in arrival order, ascending when \<open>ascending\<close> holds and descending when it does not;
  its storing columns are the column names of the storing rows, in arrival order; the names of
  both together are the column names of the rows. They do not overlap when no column name
  occurs both in a storing row and in a row that is not storing.
\<close>

theorem index_key_storing_partition:
  assumes "extractIndexes d ts = (ret, None)" and "t \<in> set ts"
    and "indexes_query d (TableName t) = Inr rs" and "scans rs = map Inr rws"
    and "index_rows i rws \<noteq> []"
  shows "\<exists>m c. map_of ret (TableName t) = Some m \<and> map_of m i = Some c \<and>
           idxName c = i \<and> idxTable c = TableName t \<and>
           idxColumns c =
             map (\<lambda>r. \<lparr>Column = icol r,
                        Direction = (if ascending r then Ascending else Descending)\<rparr>)
                 (filter (\<lambda>r. \<not> storing r) (index_rows i rws)) \<and>
           idxStoring c = map icol (filter storing (index_rows i rws)) \<and>
           set (map Column (idxColumns c)) \<union> set (idxStoring c) =
             set (map icol (index_rows i rws)) \<and>
           ((\<forall>r\<in>set (index_rows i rws). \<forall>r'\<in>set (index_rows i rws).
               icol r = icol r' \<longrightarrow> storing r = storing r') \<longrightarrow>
            set (map Column (idxColumns c)) \<inter> set (idxStoring c) = {})"
proof -
  let ?c = "\<lparr>idxName = i, idxTable = TableName t, idxColumns = key_columns (index_rows i rws),
             idxStoring = storing_columns (index_rows i rws)\<rparr>"
  from assms(1) have l: "tables_loop d ts [] = (ret, None)" by (simp add: extractIndexes_def)
  from bspec[OF conjunct1[OF tables_loop_ok[OF l]] assms(2)] obtain rs' m where
    h: "indexes_query d (TableName t) = Inr rs'"
       "index_rows_loop (TableName t) (scans rs') [] = Inr m" "map_of ret (TableName t) = Some m"
    by (elim exE conjE)
  from h(1) assms(3) have "rs' = rs" by simp
  with h(2) assms(4) have m: "index_rows_loop (TableName t) (map Inr rws) [] = Inr m" by simp
  from index_rows_loop_fresh[of "TableName t" rws] obtain m' where
    m': "index_rows_loop (TableName t) (map Inr rws) [] = Inr m'"
      "\<forall>i. map_of m' i =
        (if index_rows i rws = [] then None
         else Some \<lparr>idxName = i, idxTable = TableName t,
                    idxColumns = key_columns (index_rows i rws),
                    idxStoring = storing_columns (index_rows i rws)\<rparr>)"
    by (elim exE conjE)
  from m'(1) m have "m' = m" by simp
  with spec[OF m'(2), of i] assms(5) have c: "map_of m i = Some ?c" by simp
  have 1: "idxColumns ?c =
             map (\<lambda>r. \<lparr>Column = icol r,
                        Direction = (if ascending r then Ascending else Descending)\<rparr>)
                 (filter (\<lambda>r. \<not> storing r) (index_rows i rws))"
    by (simp add: key_columns_def)
  have 2: "idxStoring ?c = map icol (filter storing (index_rows i rws))"
    by (simp add: storing_columns_def)
  have 3: "set (map Column (idxColumns ?c)) \<union> set (idxStoring ?c) =
             set (map icol (index_rows i rws))"
    using key_storing_union[of "index_rows i rws"] by simp
  have 4: "(\<forall>r\<in>set (index_rows i rws). \<forall>r'\<in>set (index_rows i rws).
               icol r = icol r' \<longrightarrow> storing r = storing r') \<longrightarrow>
            set (map Column (idxColumns ?c)) \<inter> set (idxStoring ?c) = {}"
  proof (rule impI)
    assume "\<forall>r\<in>set (index_rows i rws). \<forall>r'\<in>set (index_rows i rws).
               icol r = icol r' \<longrightarrow> storing r = storing r'"
    then have "set (map Column (key_columns (index_rows i rws))) \<inter>
                 set (storing_columns (index_rows i rws)) = {}"
      by (rule key_storing_disjoint)
    then show "set (map Column (idxColumns ?c)) \<inter> set (idxStoring ?c) = {}" by simp
  qed
  have 5: "idxName ?c = i" "idxTable ?c = TableName t" by simp_all
  show ?thesis
    by (intro exI[of _ m] exI[of _ ?c] conjI) (rule h(3) c 5 1 2 3 4)+
qed

theorem index_key_storing_partition_witness:
  "extractIndexes (index_db idx1_rows) [table_t1] =
     ([(TableName table_t1, [(''idx1'', idx1_index)])], None) \<and>
   table_t1 \<in> set [table_t1] \<and>
   indexes_query (index_db idx1_rows) (TableName table_t1) =
     Inr \<lparr>scans = map Inr idx1_rows, rows_err = None\<rparr> \<and>
   index_rows ''idx1'' idx1_rows = idx1_rows \<and> idx1_rows \<noteq> [] \<and>
   list_all (\<lambda>r. list_all (\<lambda>r'. icol r \<noteq> icol r' \<or> storing r = storing r') idx1_rows) idx1_rows \<and>
   (\<exists>m c. map_of [(TableName table_t1, [(''idx1'', idx1_index)])] (TableName table_t1) = Some m \<and>
      map_of m ''idx1'' = Some c \<and>
      idxColumns c = [\<lparr>Column = ''a'', Direction = Ascending\<rparr>] \<and> idxStoring c = [''b''] \<and>
      set (map Column (idxColumns c)) \<inter> set (idxStoring c) = {})"
proof -
  let ?ret = "[(TableName table_t1, [(''idx1'', idx1_index)])]"
  let ?rs = "\<lparr>scans = map Inr idx1_rows, rows_err = None\<rparr>"
  have e: "extractIndexes (index_db idx1_rows) [table_t1] = (?ret, None)"
    by (simp add: extractIndexes_eval index_examples_defs)
  have t: "table_t1 \<in> set [table_t1]" by simp
  have q: "indexes_query (index_db idx1_rows) (TableName table_t1) = Inr ?rs"
    by (simp add: index_db_def same_indexes_def)
  have s: "scans ?rs = map Inr idx1_rows" by simp
  have r: "index_rows ''idx1'' idx1_rows = idx1_rows"
    by (simp add: index_rows_def idx1_rows_def)
  have n: "idx1_rows \<noteq> []" by (simp add: idx1_rows_def)
  have n': "index_rows ''idx1'' idx1_rows \<noteq> []" using r n by simp
  have d: "\<forall>r\<in>set (index_rows ''idx1'' idx1_rows). \<forall>r'\<in>set (index_rows ''idx1'' idx1_rows).
               icol r = icol r' \<longrightarrow> storing r = storing r'"
    unfolding r by (simp add: idx1_rows_def)
  have d': "list_all (\<lambda>r. list_all (\<lambda>r'. icol r \<noteq> icol r' \<or> storing r = storing r') idx1_rows)
              idx1_rows"
    by (simp add: idx1_rows_def)
  from index_key_storing_partition[OF e t q s n'] obtain m c where
    h: "map_of ?ret (TableName table_t1) = Some m" "map_of m ''idx1'' = Some c"
       "idxColumns c =
             map (\<lambda>r. \<lparr>Column = icol r,
                        Direction = (if ascending r then Ascending else Descending)\<rparr>)
                 (filter (\<lambda>r. \<not> storing r) (index_rows ''idx1'' idx1_rows))"
       "idxStoring c = map icol (filter storing (index_rows ''idx1'' idx1_rows))"
       "(\<forall>r\<in>set (index_rows ''idx1'' idx1_rows). \<forall>r'\<in>set (index_rows ''idx1'' idx1_rows).
               icol r = icol r' \<longrightarrow> storing r = storing r') \<longrightarrow>
            set (map Column (idxColumns c)) \<inter> set (idxStoring c) = {}"
    by (elim exE conjE)
  have k: "idxColumns c = [\<lparr>Column = ''a'', Direction = Ascending\<rparr>]"
    unfolding h(3) r by (simp add: idx1_rows_def)
  have st: "idxStoring c = [''b'']"
    unfolding h(4) r by (simp add: idx1_rows_def)
  from h(5) d have dj: "set (map Column (idxColumns c)) \<inter> set (idxStoring c) = {}" by (rule mp)
  have x: "\<exists>m c. map_of ?ret (TableName table_t1) = Some m \<and>
      map_of m ''idx1'' = Some c \<and>
      idxColumns c = [\<lparr>Column = ''a'', Direction = Ascending\<rparr>] \<and> idxStoring c = [''b''] \<and>
      set (map Column (idxColumns c)) \<inter> set (idxStoring c) = {}"
    by (intro exI[of _ m] exI[of _ c] conjI) (rule h(1) h(2) k st dj)+
  show ?thesis by (intro conjI) (rule e t q r n d' x)+
qed

text \<open>
  C5 as stated fails on rows that name one column both as a key and as a storing column of
  the same index: the name is in both lists.
\<close>

theorem index_key_storing_overlap_counterexample:
  "extractIndexes (index_db overlap_rows) [table_t1] =
     ([(TableName table_t1, [(''idx1'', overlap_index)])], None) \<and>
   index_rows ''idx1'' overlap_rows = overlap_rows \<and>
   set (map Column (idxColumns overlap_index)) \<inter> set (idxStoring overlap_index) = {''a''}"
  by (simp add: extractIndexes_eval index_examples_defs index_rows_def)

section \<open>The schema cache\<close>

subsection \<open>Failures of \<open>extractTables\<close>\<close>

lemma extractTables_query_error:
  "columns_query d = Inl e \<Longrightarrow> extractTables tfn d = Return ([], Some e)"
  by (simp add: extractTables_def)

lemma rows_loop_scan_error:
  "\<forall>r\<in>set (retained rws). tfn (typ_name r) \<noteq> None \<Longrightarrow>
     rows_loop tfn (map Inr rws @ Inl e # rest) g = ScanFailed e"
proof (induction rws arbitrary: g)
  case Nil
  show ?case by simp
next
  case (Cons r rws)
  show ?case
  proof (cases "hidden r")
    case True
    with Cons show ?thesis by (simp add: retained_def)
  next
    case False
    with Cons.prems have "tfn (typ_name r) \<noteq> None" by (simp add: retained_def)
    then obtain g' where "row_body tfn r g = Some g'"
      using row_body_None[of tfn r g] by (cases "row_body tfn r g") auto
    with Cons False show ?thesis by (simp add: retained_def)
  qed
qed

lemma extractTables_scan_error:
  assumes "columns_query d = Inr rs" and "scans rs = map Inr rws @ Inl e # rest"
    and "\<forall>r\<in>set (retained rws). tfn (typ_name r) \<noteq> None"
  shows "extractTables tfn d = Return ([], Some e)"
  using assms(1,2) rows_loop_scan_error[OF assms(3), of e rest grouper_init]
  by (simp add: extractTables_def)

lemma extractIndexes_error: "extractIndexes d ts = (ixs, Some e) \<Longrightarrow> ixs = []"
  unfolding extractIndexes_def by (rule tables_loop_error)

subsection \<open>What \<open>ReloadSchemas\<close> leaves behind\<close>

lemma ReloadSchemas_tables_error:
  assumes "db s = Some d" and "extractTables tfn d = Return (ts, Some e)"
  shows "ReloadSchemas tfn s = (Return (Some e), log Unlock ((log Lock s)\<lparr>tables := ts\<rparr>))"
  using assms by (simp add: ReloadSchemas_def)

lemma ReloadSchemas_indexes_result:
  assumes "db s = Some d" and "extractTables tfn d = Return (ts, None)"
    and "extractIndexes d ts = (ixs, err)"
  shows "ReloadSchemas tfn s =
           (Return err, log Unlock ((log Lock s)\<lparr>tables := ts, indexes := ixs\<rparr>))"
  using assms by (simp add: ReloadSchemas_def)

lemma log_fields [simp]:
  "tables (log ev s) = tables s" "indexes (log ev s) = indexes s" "rnd (log ev s) = rnd s"
  "db (log ev s) = db s" "trace (log ev s) = trace s @ [ev]"
  by (simp_all add: log_def)

subsection \<open>The traces of the random picks\<close>

lemma getRandTable_trace:
  "trace (snd (getRandTable Intn s)) =
     trace s @ (if tables s = [] then [RLock, RUnlock] else [RLock, RndIntn, RUnlock])"
  by (simp add: getRandTable_def Let_def split: prod.splits)

lemma getIndexes_trace: "trace (snd (getIndexes table s)) = trace s @ [RLock, RUnlock]"
  by (simp add: getIndexes_def Let_def)

lemma getRandTableIndex_trace:
  "trace (snd (getRandTableIndex Intn table s)) =
     trace s @ (if fst (getIndexes table s) = [] then [RLock, RUnlock]
                else [RLock, RUnlock, RndIntn])"
  by (simp add: getRandTableIndex_def getIndexes_def Let_def split: prod.splits option.splits)

subsection \<open>The claims about the schema cache\<close>

lemmas cache_examples_defs =
  cache_of_def broken_columns_db_def decode_error_db_def iteration_error_db_def
  broken_index_db_def failing_indexes_def t1_catalog_def t2_catalog_def Intn_mod_def

text \<open>
  C1, as amended. A failed \<open>ReloadSchemas\<close> does not restore the state, and it returns the
  error that occurred. When the column query fails or a row fails to decode, the table list
  is left empty and the index catalog is left as it was; when the iteration over the column
  rows ends with an error, the table list is the tables grouped from the rows and the index
  catalog is left as it was; in general, when \<open>extractTables\<close> returns an error, the table
  list is what it returned with the error. When the tables are extracted and, after the index
  passes of the tables before it have succeeded, the index query of a table fails, or one of
  its rows fails to decode, or the iteration over its rows ends with an error, the table list
  is the one just extracted and the index catalog is left empty.
\<close>

theorem ReloadSchemas_failure_state:
  assumes "db s = Some d"
  shows "(\<forall>e. columns_query d = Inl e \<longrightarrow>
            fst (ReloadSchemas typeFromName s) = Return (Some e) \<and>
            tables (snd (ReloadSchemas typeFromName s)) = [] \<and>
            indexes (snd (ReloadSchemas typeFromName s)) = indexes s) \<and>
         (\<forall>rs rws e rest.
            columns_query d = Inr rs \<and> scans rs = map Inr rws @ Inl e # rest \<and>
            (\<forall>r\<in>set (retained rws). typeFromName (typ_name r) \<noteq> None) \<longrightarrow>
            fst (ReloadSchemas typeFromName s) = Return (Some e) \<and>
            tables (snd (ReloadSchemas typeFromName s)) = [] \<and>
            indexes (snd (ReloadSchemas typeFromName s)) = indexes s) \<and>
         (\<forall>ts e. extractTables typeFromName d = Return (ts, Some e) \<longrightarrow>
            fst (ReloadSchemas typeFromName s) = Return (Some e) \<and>
            tables (snd (ReloadSchemas typeFromName s)) = ts \<and>
            indexes (snd (ReloadSchemas typeFromName s)) = indexes s) \<and>
         (\<forall>ts ixs e.
            extractTables typeFromName d = Return (ts, None) \<and>
            extractIndexes d ts = (ixs, Some e) \<longrightarrow>
            fst (ReloadSchemas typeFromName s) = Return (Some e) \<and>
            tables (snd (ReloadSchemas typeFromName s)) = ts \<and>
            indexes (snd (ReloadSchemas typeFromName s)) = []) \<and>
         (\<forall>rs rws f e.
            columns_query d = Inr rs \<and> scans rs = map Inr rws \<and> rows_err rs = Some e \<and>
            (\<forall>r\<in>set (retained rws). typeFromName (typ_name r) = Some (f (typ_name r))) \<longrightarrow>
            fst (ReloadSchemas typeFromName s) = Return (Some e) \<and>
            tables (snd (ReloadSchemas typeFromName s)) =
              map (run_tableRef f) (filter public_run (row_runs (retained rws))) \<and>
            indexes (snd (ReloadSchemas typeFromName s)) = indexes s) \<and>
         (\<forall>pre t post e.
            extractTables typeFromName d = Return (pre @ t # post, None) \<and>
            (\<forall>t'\<in>set pre. index_pass_ok d (TableName t')) \<and>
            indexes_query d (TableName t) = Inl e \<longrightarrow>
            fst (ReloadSchemas typeFromName s) = Return (Some e) \<and>
            tables (snd (ReloadSchemas typeFromName s)) = pre @ t # post \<and>
            indexes (snd (ReloadSchemas typeFromName s)) = []) \<and>
         (\<forall>pre t post rs rws e rest.
            extractTables typeFromName d = Return (pre @ t # post, None) \<and>
            (\<forall>t'\<in>set pre. index_pass_ok d (TableName t')) \<and>
            indexes_query d (TableName t) = Inr rs \<and> scans rs = map Inr rws @ Inl e # rest \<longrightarrow>
            fst (ReloadSchemas typeFromName s) = Return (Some e) \<and>
            tables (snd (ReloadSchemas typeFromName s)) = pre @ t # post \<and>
            indexes (snd (ReloadSchemas typeFromName s)) = []) \<and>
         (\<forall>pre t post rs rws e.
            extractTables typeFromName d = Return (pre @ t # post, None) \<and>
            (\<forall>t'\<in>set pre. index_pass_ok d (TableName t')) \<and>
            indexes_query d (TableName t) = Inr rs \<and> scans rs = map Inr rws \<and>
            rows_err rs = Some e \<longrightarrow>
            fst (ReloadSchemas typeFromName s) = Return (Some e) \<and>
            tables (snd (ReloadSchemas typeFromName s)) = pre @ t # post \<and>
            indexes (snd (ReloadSchemas typeFromName s)) = [])"
proof (intro conjI allI impI)
  fix e assume "columns_query d = Inl e"
  then have "extractTables typeFromName d = Return ([], Some e)"
    by (rule extractTables_query_error)
  from ReloadSchemas_tables_error[OF assms this]
  show "fst (ReloadSchemas typeFromName s) = Return (Some e)"
    "tables (snd (ReloadSchemas typeFromName s)) = []"
    "indexes (snd (ReloadSchemas typeFromName s)) = indexes s"
    by simp_all
next
  fix rs rws e rest
  assume a: "columns_query d = Inr rs \<and> scans rs = map Inr rws @ Inl e # rest \<and>
            (\<forall>r\<in>set (retained rws). typeFromName (typ_name r) \<noteq> None)"
  have "extractTables typeFromName d = Return ([], Some e)"
    by (rule extractTables_scan_error[OF conjunct1[OF a] conjunct1[OF conjunct2[OF a]]
          conjunct2[OF conjunct2[OF a]]])
  from ReloadSchemas_tables_error[OF assms this]
  show "fst (ReloadSchemas typeFromName s) = Return (Some e)"
    "tables (snd (ReloadSchemas typeFromName s)) = []"
    "indexes (snd (ReloadSchemas typeFromName s)) = indexes s"
    by simp_all
next
  fix ts e assume "extractTables typeFromName d = Return (ts, Some e)"
  from ReloadSchemas_tables_error[OF assms this]
  show "fst (ReloadSchemas typeFromName s) = Return (Some e)"
    "tables (snd (ReloadSchemas typeFromName s)) = ts"
    "indexes (snd (ReloadSchemas typeFromName s)) = indexes s"
    by simp_all
next
  fix ts ixs e
  assume a: "extractTables typeFromName d = Return (ts, None) \<and>
            extractIndexes d ts = (ixs, Some e)"
  from extractIndexes_error[OF conjunct2[OF a]] have "ixs = []" .
  with ReloadSchemas_indexes_result[OF assms conjunct1[OF a] conjunct2[OF a]]
  show "fst (ReloadSchemas typeFromName s) = Return (Some e)"
    "tables (snd (ReloadSchemas typeFromName s)) = ts"
    "indexes (snd (ReloadSchemas typeFromName s)) = []"
    by simp_all
next
  fix rs rws f e
  assume a: "columns_query d = Inr rs \<and> scans rs = map Inr rws \<and> rows_err rs = Some e \<and>
            (\<forall>r\<in>set (retained rws). typeFromName (typ_name r) = Some (f (typ_name r)))"
  from a have q: "columns_query d = Inr rs" and sc: "scans rs = map Inr rws"
    and re: "rows_err rs = Some e"
    and ty: "\<forall>r\<in>set (retained rws). typeFromName (typ_name r) = Some (f (typ_name r))"
    by blast+
  from extractTables_rows[OF q sc ty] re
  have "extractTables typeFromName d =
      Return (map (run_tableRef f) (filter public_run (row_runs (retained rws))), Some e)"
    by simp
  from ReloadSchemas_tables_error[OF assms this]
  show "fst (ReloadSchemas typeFromName s) = Return (Some e)"
    "tables (snd (ReloadSchemas typeFromName s)) =
       map (run_tableRef f) (filter public_run (row_runs (retained rws)))"
    "indexes (snd (ReloadSchemas typeFromName s)) = indexes s"
    by simp_all
next
  fix pre t post e
  assume a: "extractTables typeFromName d = Return (pre @ t # post, None) \<and>
            (\<forall>t'\<in>set pre. index_pass_ok d (TableName t')) \<and>
            indexes_query d (TableName t) = Inl e"
  from a have x: "extractTables typeFromName d = Return (pre @ t # post, None)"
    and p: "\<forall>t'\<in>set pre. index_pass_ok d (TableName t')"
    and c: "indexes_query d (TableName t) = Inl e"
    by blast+
  have "extractIndexes d (pre @ t # post) = ([], Some e)"
    by (rule extractIndexes_failure[OF p]) (rule tables_loop_query_error[OF c])
  from ReloadSchemas_indexes_result[OF assms x this]
  show "fst (ReloadSchemas typeFromName s) = Return (Some e)"
    "tables (snd (ReloadSchemas typeFromName s)) = pre @ t # post"
    "indexes (snd (ReloadSchemas typeFromName s)) = []"
    by simp_all
next
  fix pre t post rs rws e rest
  assume a: "extractTables typeFromName d = Return (pre @ t # post, None) \<and>
            (\<forall>t'\<in>set pre. index_pass_ok d (TableName t')) \<and>
            indexes_query d (TableName t) = Inr rs \<and> scans rs = map Inr rws @ Inl e # rest"
  from a have x: "extractTables typeFromName d = Return (pre @ t # post, None)"
    and p: "\<forall>t'\<in>set pre. index_pass_ok d (TableName t')"
    and c: "indexes_query d (TableName t) = Inr rs"
    and sc: "scans rs = map Inr rws @ Inl e # rest"
    by blast+
  have "extractIndexes d (pre @ t # post) = ([], Some e)"
    by (rule extractIndexes_failure[OF p]) (rule tables_loop_scan_error[OF c sc])
  from ReloadSchemas_indexes_result[OF assms x this]
  show "fst (ReloadSchemas typeFromName s) = Return (Some e)"
    "tables (snd (ReloadSchemas typeFromName s)) = pre @ t # post"
    "indexes (snd (ReloadSchemas typeFromName s)) = []"
    by simp_all
next
  fix pre t post rs rws e
  assume a: "extractTables typeFromName d = Return (pre @ t # post, None) \<and>
            (\<forall>t'\<in>set pre. index_pass_ok d (TableName t')) \<and>
            indexes_query d (TableName t) = Inr rs \<and> scans rs = map Inr rws \<and>
            rows_err rs = Some e"
  from a have x: "extractTables typeFromName d = Return (pre @ t # post, None)"
    and p: "\<forall>t'\<in>set pre. index_pass_ok d (TableName t')"
    and c: "indexes_query d (TableName t) = Inr rs"
    and sc: "scans rs = map Inr rws" and re: "rows_err rs = Some e"
    by blast+
  have "extractIndexes d (pre @ t # post) = ([], Some e)"
    by (rule extractIndexes_failure[OF p]) (rule tables_loop_rows_err[OF c sc re])
  from ReloadSchemas_indexes_result[OF assms x this]
  show "fst (ReloadSchemas typeFromName s) = Return (Some e)"
    "tables (snd (ReloadSchemas typeFromName s)) = pre @ t # post"
    "indexes (snd (ReloadSchemas typeFromName s)) = []"
    by simp_all
qed

theorem ReloadSchemas_failure_state_witness:
  "db (cache_of (Some broken_columns_db) [table_t2] t2_catalog) = Some broken_columns_db \<and>
   columns_query broken_columns_db = Inl (Error ''connection refused'') \<and>
   fst (ReloadSchemas known_types (cache_of (Some broken_columns_db) [table_t2] t2_catalog)) =
     Return (Some (Error ''connection refused'')) \<and>
   tables (snd (ReloadSchemas known_types (cache_of (Some broken_columns_db) [table_t2] t2_catalog))) =
     [] \<and>
   indexes (snd (ReloadSchemas known_types (cache_of (Some broken_columns_db) [table_t2] t2_catalog))) =
     t2_catalog \<and>
   columns_query decode_error_db =
     Inr \<lparr>scans = map Inr [row_a, row_rowid] @ Inl (Error ''bad row'') # [Inr row_c],
           rows_err = None\<rparr> \<and>
   list_all (\<lambda>r. known_types (typ_name r) \<noteq> None) (retained [row_a, row_rowid]) \<and>
   tables (snd (ReloadSchemas known_types (cache_of (Some decode_error_db) [table_t2] t2_catalog))) =
     [] \<and>
   extractTables known_types iteration_error_db = Return ([table_t1], Some (Error ''reset'')) \<and>
   tables (snd (ReloadSchemas known_types (cache_of (Some iteration_error_db) [table_t2] t2_catalog))) =
     [table_t1] \<and>
   extractTables known_types broken_index_db = Return ([table_t1, table_t2], None) \<and>
   extractIndexes broken_index_db [table_t1, table_t2] =
     ([], Some (Error ''relation does not exist'')) \<and>
   fst (ReloadSchemas known_types (cache_of (Some broken_index_db) [table_t2] t2_catalog)) =
     Return (Some (Error ''relation does not exist'')) \<and>
   tables (snd (ReloadSchemas known_types (cache_of (Some broken_index_db) [table_t2] t2_catalog))) =
     [table_t1, table_t2] \<and>
   indexes (snd (ReloadSchemas known_types (cache_of (Some broken_index_db) [table_t2] t2_catalog))) =
     [] \<and>
   columns_query iteration_error_db =
     Inr \<lparr>scans = map Inr [row_a, row_b], rows_err = Some (Error ''reset'')\<rparr> \<and>
   list_all (\<lambda>r. known_types (typ_name r) = Some (typ_name r)) (retained [row_a, row_b]) \<and>
   fst (ReloadSchemas known_types (cache_of (Some iteration_error_db) [table_t2] t2_catalog)) =
     Return (Some (Error ''reset'')) \<and>
   indexes (snd (ReloadSchemas known_types (cache_of (Some iteration_error_db) [table_t2] t2_catalog))) =
     t2_catalog \<and>
   index_pass_ok broken_index_db (TableName table_t1) \<and>
   indexes_query broken_index_db (TableName table_t2) = Inl (Error ''relation does not exist'') \<and>
   extractTables known_types index_decode_error_db = Return ([table_t1, table_t2], None) \<and>
   index_pass_ok index_decode_error_db (TableName table_t1) \<and>
   indexes_query index_decode_error_db (TableName table_t2) =
     Inr \<lparr>scans = map Inr idx1_rows @ Inl (Error ''bad index row'') # [], rows_err = None\<rparr> \<and>
   fst (ReloadSchemas known_types (cache_of (Some index_decode_error_db) [table_t2] t2_catalog)) =
     Return (Some (Error ''bad index row'')) \<and>
   tables (snd (ReloadSchemas known_types
                  (cache_of (Some index_decode_error_db) [table_t2] t2_catalog))) =
     [table_t1, table_t2] \<and>
   indexes (snd (ReloadSchemas known_types
                   (cache_of (Some index_decode_error_db) [table_t2] t2_catalog))) = [] \<and>
   extractTables known_types index_iteration_error_db = Return ([table_t1, table_t2], None) \<and>
   index_pass_ok index_iteration_error_db (TableName table_t1) \<and>
   indexes_query index_iteration_error_db (TableName table_t2) =
     Inr \<lparr>scans = map Inr idx1_rows, rows_err = Some (Error ''index rows reset'')\<rparr> \<and>
   fst (ReloadSchemas known_types (cache_of (Some index_iteration_error_db) [table_t2] t2_catalog)) =
     Return (Some (Error ''index rows reset'')) \<and>
   tables (snd (ReloadSchemas known_types
                  (cache_of (Some index_iteration_error_db) [table_t2] t2_catalog))) =
     [table_t1, table_t2] \<and>
   indexes (snd (ReloadSchemas known_types
                   (cache_of (Some index_iteration_error_db) [table_t2] t2_catalog))) = []"
proof -
  let ?c = "\<lambda>d. cache_of (Some d) [table_t2] t2_catalog"
  have d: "db (?c x) = Some x" for x by (simp add: cache_of_def)
  have i: "indexes (?c x) = t2_catalog" for x by (simp add: cache_of_def)
  note W = ReloadSchemas_failure_state[OF d, of _ known_types]
  note W1 = conjunct1[OF W]
    and W2 = conjunct1[OF conjunct2[OF W]]
    and W3 = conjunct1[OF conjunct2[OF conjunct2[OF W]]]
    and W4 = conjunct1[OF conjunct2[OF conjunct2[OF conjunct2[OF W]]]]
    and W5 = conjunct1[OF conjunct2[OF conjunct2[OF conjunct2[OF conjunct2[OF W]]]]]
    and W6 = conjunct1[OF conjunct2[OF conjunct2[OF conjunct2[OF conjunct2[OF conjunct2[OF W]]]]]]
    and W7 = conjunct1[OF conjunct2[OF conjunct2[OF conjunct2[OF conjunct2[OF conjunct2[OF
               conjunct2[OF W]]]]]]]
    and W8 = conjunct2[OF conjunct2[OF conjunct2[OF conjunct2[OF conjunct2[OF conjunct2[OF
               conjunct2[OF W]]]]]]]
  have q1: "columns_query broken_columns_db = Inl (Error ''connection refused'')"
    by (simp add: broken_columns_db_def)
  note w1 = W1[of broken_columns_db, rule_format, OF q1, unfolded i]
  have q2: "columns_query decode_error_db =
     Inr \<lparr>scans = map Inr [row_a, row_rowid] @ Inl (Error ''bad row'') # [Inr row_c],
           rows_err = None\<rparr>"
    by (simp add: decode_error_db_def)
  have s2: "scans \<lparr>scans = map Inr [row_a, row_rowid] @ Inl (Error ''bad row'') # [Inr row_c],
           rows_err = None\<rparr> = map Inr [row_a, row_rowid] @ Inl (Error ''bad row'') # [Inr row_c]"
    by simp
  have t2: "\<forall>r\<in>set (retained [row_a, row_rowid]). known_types (typ_name r) \<noteq> None"
    by (simp add: retained_def example_rows_defs)
  have l2: "list_all (\<lambda>r. known_types (typ_name r) \<noteq> None) (retained [row_a, row_rowid])"
    using t2 by (simp add: list_all_iff)
  note w2 = W2[of decode_error_db, rule_format, OF conjI[OF q2 conjI[OF s2 t2]]]
  have e3: "extractTables known_types iteration_error_db =
      Return ([table_t1], Some (Error ''reset''))"
    by (simp add: extractTables_eval example_rows_defs iteration_error_db_def)
  note w3 = W3[of iteration_error_db, rule_format, OF e3]
  have e4: "extractTables known_types broken_index_db = Return ([table_t1, table_t2], None)"
    by (simp add: extractTables_eval example_rows_defs broken_index_db_def)
  have x4: "extractIndexes broken_index_db [table_t1, table_t2] =
     ([], Some (Error ''relation does not exist''))"
    by (simp add: extractIndexes_eval index_examples_defs broken_index_db_def
          failing_indexes_def)
  note w4 = W4[of broken_index_db, rule_format, OF conjI[OF e4 x4]]
  have q5: "columns_query iteration_error_db =
     Inr \<lparr>scans = map Inr [row_a, row_b], rows_err = Some (Error ''reset'')\<rparr>"
    by (simp add: iteration_error_db_def)
  have s5: "scans \<lparr>scans = map Inr [row_a, row_b], rows_err = Some (Error ''reset'')\<rparr> =
      map Inr [row_a, row_b]" by simp
  have r5: "rows_err \<lparr>scans = map Inr [row_a, row_b], rows_err = Some (Error ''reset'')\<rparr> =
      Some (Error ''reset'')" by simp
  have t5: "\<forall>r\<in>set (retained [row_a, row_b]). known_types (typ_name r) = Some (typ_name r)"
    by (simp add: retained_def example_rows_defs)
  have l5: "list_all (\<lambda>r. known_types (typ_name r) = Some (typ_name r)) (retained [row_a, row_b])"
    using t5 by (simp add: list_all_iff)
  note w5 = W5[of iteration_error_db, rule_format, of _ _ _ "\<lambda>n. n",
      OF conjI[OF q5 conjI[OF s5 conjI[OF r5 t5]]], unfolded i]
  have split: "[table_t1, table_t2] = [table_t1] @ table_t2 # []" by simp
  have ok_rows: "list_all (\<lambda>s. case s of Inl e \<Rightarrow> False | Inr r \<Rightarrow> True)
      (map Inr idx1_rows :: (error + idx_row) list)"
    by (simp add: idx1_rows_def)
  have p6: "\<forall>t'\<in>set [table_t1]. index_pass_ok broken_index_db (TableName t')"
    using ok_rows
    by (simp add: index_pass_ok_def broken_index_db_def failing_indexes_def table_t1_def
          NewTableName_def)
  have c6: "indexes_query broken_index_db (TableName table_t2) =
      Inl (Error ''relation does not exist'')"
    by (simp add: broken_index_db_def failing_indexes_def table_t2_def)
  note w6 = W6[of broken_index_db, rule_format, OF conjI[OF e4[unfolded split] conjI[OF p6 c6]],
      folded split]
  have e7: "extractTables known_types index_decode_error_db =
      Return ([table_t1, table_t2], None)"
    by (simp add: extractTables_eval example_rows_defs index_decode_error_db_def)
  have p7: "\<forall>t'\<in>set [table_t1]. index_pass_ok index_decode_error_db (TableName t')"
    using ok_rows
    by (simp add: index_pass_ok_def index_decode_error_db_def decode_failing_indexes_def
          table_t1_def NewTableName_def)
  have c7: "indexes_query index_decode_error_db (TableName table_t2) =
      Inr \<lparr>scans = map Inr idx1_rows @ Inl (Error ''bad index row'') # [], rows_err = None\<rparr>"
    by (simp add: index_decode_error_db_def decode_failing_indexes_def table_t2_def)
  have s7: "scans \<lparr>scans = map Inr idx1_rows @ Inl (Error ''bad index row'') # [],
                   rows_err = None\<rparr> =
      map Inr idx1_rows @ Inl (Error ''bad index row'') # []" by simp
  note w7 = W7[of index_decode_error_db, rule_format,
      OF conjI[OF e7[unfolded split] conjI[OF p7 conjI[OF c7 s7]]], folded split]
  have e8: "extractTables known_types index_iteration_error_db =
      Return ([table_t1, table_t2], None)"
    by (simp add: extractTables_eval example_rows_defs index_iteration_error_db_def)
  have p8: "\<forall>t'\<in>set [table_t1]. index_pass_ok index_iteration_error_db (TableName t')"
    using ok_rows
    by (simp add: index_pass_ok_def index_iteration_error_db_def iteration_failing_indexes_def
          table_t1_def NewTableName_def)
  have c8: "indexes_query index_iteration_error_db (TableName table_t2) =
      Inr \<lparr>scans = map Inr idx1_rows, rows_err = Some (Error ''index rows reset'')\<rparr>"
    by (simp add: index_iteration_error_db_def iteration_failing_indexes_def table_t2_def)
  have s8: "scans \<lparr>scans = map Inr idx1_rows, rows_err = Some (Error ''index rows reset'')\<rparr> =
      map Inr idx1_rows" by simp
  have r8: "rows_err \<lparr>scans = map Inr idx1_rows, rows_err = Some (Error ''index rows reset'')\<rparr> =
      Some (Error ''index rows reset'')" by simp
  note w8 = W8[of index_iteration_error_db, rule_format,
      OF conjI[OF e8[unfolded split] conjI[OF p8 conjI[OF c8 conjI[OF s8 r8]]]], folded split]
  have k6: "index_pass_ok broken_index_db (TableName table_t1)" using p6 by simp
  have k7: "index_pass_ok index_decode_error_db (TableName table_t1)" using p7 by simp
  have k8: "index_pass_ok index_iteration_error_db (TableName table_t1)" using p8 by simp
  show ?thesis
    by (intro conjI)
       (rule d q1 conjunct1[OF w1] conjunct1[OF conjunct2[OF w1]] conjunct2[OF conjunct2[OF w1]]
          q2 l2 conjunct1[OF conjunct2[OF w2]] e3 conjunct1[OF conjunct2[OF w3]] e4 x4
          conjunct1[OF w4] conjunct1[OF conjunct2[OF w4]] conjunct2[OF conjunct2[OF w4]]
          q5 l5 conjunct1[OF w5] conjunct2[OF conjunct2[OF w5]]
          k6 c6 e7 k7 c7
          conjunct1[OF w7] conjunct1[OF conjunct2[OF w7]] conjunct2[OF conjunct2[OF w7]]
          e8 k8 c8
          conjunct1[OF w8] conjunct1[OF conjunct2[OF w8]] conjunct2[OF conjunct2[OF w8]])+
qed

text \<open>
  C1 as stated fails: when the index query of the second table fails, the table list is the
  new one and the index catalog is empty; when the column query fails, the table list is
  empty.
\<close>

theorem ReloadSchemas_not_atomic_counterexample:
  "fst (ReloadSchemas known_types (cache_of (Some broken_index_db) [table_t2] t2_catalog)) =
     Return (Some (Error ''relation does not exist'')) \<and>
   tables (cache_of (Some broken_index_db) [table_t2] t2_catalog) = [table_t2] \<and>
   tables (snd (ReloadSchemas known_types (cache_of (Some broken_index_db) [table_t2] t2_catalog))) =
     [table_t1, table_t2] \<and>
   indexes (cache_of (Some broken_index_db) [table_t2] t2_catalog) = t2_catalog \<and>
   indexes (snd (ReloadSchemas known_types (cache_of (Some broken_index_db) [table_t2] t2_catalog))) =
     [] \<and>
   t2_catalog \<noteq> [] \<and> [table_t1, table_t2] \<noteq> [table_t2] \<and>
   fst (ReloadSchemas known_types (cache_of (Some broken_columns_db) [table_t2] t2_catalog)) =
     Return (Some (Error ''connection refused'')) \<and>
   tables (snd (ReloadSchemas known_types (cache_of (Some broken_columns_db) [table_t2] t2_catalog))) =
     []"
proof -
  have e4: "extractTables known_types broken_index_db = Return ([table_t1, table_t2], None)"
    by (simp add: extractTables_eval example_rows_defs broken_index_db_def)
  have x4: "extractIndexes broken_index_db [table_t1, table_t2] =
     ([], Some (Error ''relation does not exist''))"
    by (simp add: extractIndexes_eval index_examples_defs broken_index_db_def
          failing_indexes_def)
  have e1: "extractTables known_types broken_columns_db =
      Return ([], Some (Error ''connection refused''))"
    by (simp add: extractTables_def broken_columns_db_def)
  have r4: "ReloadSchemas known_types (cache_of (Some broken_index_db) [table_t2] t2_catalog) =
      (Return (Some (Error ''relation does not exist'')),
       log Unlock ((log Lock (cache_of (Some broken_index_db) [table_t2] t2_catalog))
         \<lparr>tables := [table_t1, table_t2], indexes := []\<rparr>))"
    by (rule ReloadSchemas_indexes_result[OF _ e4 x4]) (simp add: cache_of_def)
  have r1: "ReloadSchemas known_types (cache_of (Some broken_columns_db) [table_t2] t2_catalog) =
      (Return (Some (Error ''connection refused'')),
       log Unlock ((log Lock (cache_of (Some broken_columns_db) [table_t2] t2_catalog))
         \<lparr>tables := []\<rparr>))"
    by (rule ReloadSchemas_tables_error[OF _ e1]) (simp add: cache_of_def)
  have n: "t2_catalog \<noteq> []" "[table_t1, table_t2] \<noteq> [table_t2]"
    by (simp_all add: t2_catalog_def)
  show ?thesis unfolding r4 r1 using n by (simp add: cache_of_def)
qed

text \<open>
  C2, as amended. \<open>getRandIndex\<close> gives the same result, \<open>(nil, nil, false)\<close>, when there is
  no table and when the table drawn has no index: the result does not tell which.
\<close>

theorem getRandIndex_not_found:
  "(tables s = [] \<longrightarrow> fst (getRandIndex Intn s) = Return None) \<and>
   (\<forall>t s1. getRandTable Intn s = (Return (Some t), s1) \<and>
       fst (getIndexes (TableName t) s1) = [] \<longrightarrow>
       fst (getRandIndex Intn s) = Return None)"
proof (intro conjI allI impI)
  assume "tables s = []"
  then show "fst (getRandIndex Intn s) = Return None"
    by (simp add: getRandIndex_def getRandTable_def Let_def)
next
  fix t s1
  assume a: "getRandTable Intn s = (Return (Some t), s1) \<and>
       fst (getIndexes (TableName t) s1) = []"
  then have "getRandIndex Intn s = getRandTableIndex Intn (TableName t) s1"
    by (simp add: getRandIndex_def)
  moreover have "fst (getRandTableIndex Intn (TableName t) s1) = Return None"
  proof -
    obtain ixs s2 where g: "getIndexes (TableName t) s1 = (ixs, s2)"
      by (cases "getIndexes (TableName t) s1")
    with a have "ixs = []" by simp
    with g show ?thesis by (simp add: getRandTableIndex_def)
  qed
  ultimately show "fst (getRandIndex Intn s) = Return None" by simp
qed

theorem getRandIndex_not_found_witness:
  "tables (cache_of None [] []) = [] \<and>
   fst (getRandIndex Intn_mod (cache_of None [] [])) = Return None \<and>
   fst (getRandTable Intn_mod (cache_of None [table_t1] [])) = Return (Some table_t1) \<and>
   fst (getIndexes (TableName table_t1) (snd (getRandTable Intn_mod (cache_of None [table_t1] [])))) =
     [] \<and>
   fst (getRandIndex Intn_mod (cache_of None [table_t1] [])) = Return None"
proof -
  have 1: "tables (cache_of None [] []) = ([] :: string tableRef list)" by (simp add: cache_of_def)
  note w1 = conjunct1[OF getRandIndex_not_found[of "cache_of None [] []" Intn_mod],
      rule_format, OF 1]
  obtain s1 where s1: "getRandTable Intn_mod (cache_of None [table_t1] []) =
      (Return (Some table_t1), s1)"
    by (simp add: getRandTable_def cache_of_def Intn_mod_def Let_def log_def)
  have 2: "fst (getRandTable Intn_mod (cache_of None [table_t1] [])) = Return (Some table_t1)"
    by (simp add: s1)
  have i: "indexes s1 = []"
    using s1 by (auto simp: getRandTable_def cache_of_def Intn_mod_def Let_def)
  have 3: "fst (getIndexes (TableName table_t1) s1) = []"
    by (simp add: getIndexes_def Let_def i)
  note w2 = conjunct2[OF getRandIndex_not_found[of "cache_of None [table_t1] []" Intn_mod],
      rule_format, OF conjI[OF s1 3]]
  have g3: "fst (getIndexes (TableName table_t1)
      (snd (getRandTable Intn_mod (cache_of None [table_t1] [])))) = []"
    using 3 by (simp add: s1)
  show ?thesis by (intro conjI) (rule 1 w1 2 g3 w2)+
qed

text \<open>
  C2 as stated fails: a cache with no table and a cache whose only table has no index give
  the same result.
\<close>

theorem getRandIndex_same_outcome_counterexample:
  "tables (cache_of None [] []) = [] \<and>
   tables (cache_of None [table_t1] []) = [table_t1] \<and>
   fst (getRandIndex Intn_mod (cache_of None [] [])) = Return None \<and>
   fst (getRandIndex Intn_mod (cache_of None [table_t1] [])) = Return None \<and>
   fst (getRandIndex Intn_mod (cache_of None [] [])) =
     fst (getRandIndex Intn_mod (cache_of None [table_t1] []))"
  by (simp add: getRandIndex_def getRandTable_def getRandTableIndex_def getIndexes_def
        cache_of_def Intn_mod_def Let_def log_def)

text \<open>
  C9, as amended. The random picks do not all draw under the lock. \<open>getRandTable\<close> takes
  the shared lock, draws from \<open>s.rnd\<close> when there is a table, and releases the lock: its draw
  happens while the lock is held. \<open>getRandTableIndex\<close> draws, when the table has an index,
  after \<open>getIndexes\<close> has taken and released the shared lock: its draw happens with no lock
  held by the call. \<open>getRandIndex\<close> does the one and then the other.
\<close>

theorem random_pick_traces:
  "trace (snd (getRandTable Intn s)) =
     trace s @ (if tables s = [] then [RLock, RUnlock] else [RLock, RndIntn, RUnlock]) \<and>
   guarded 0 [RLock, RndIntn, RUnlock] \<and>
   trace (snd (getRandTableIndex Intn table s)) =
     trace s @ (if fst (getIndexes table s) = [] then [RLock, RUnlock]
                else [RLock, RUnlock, RndIntn]) \<and>
   \<not> guarded 0 [RLock, RUnlock, RndIntn] \<and>
   (\<forall>t s1. getRandTable Intn s = (Return (Some t), s1) \<longrightarrow>
      trace (snd (getRandIndex Intn s)) =
        trace s @ [RLock, RndIntn, RUnlock] @
          (if fst (getIndexes (TableName t) s1) = [] then [RLock, RUnlock]
           else [RLock, RUnlock, RndIntn]))"
proof (intro conjI allI impI)
  show "trace (snd (getRandTable Intn s)) =
     trace s @ (if tables s = [] then [RLock, RUnlock] else [RLock, RndIntn, RUnlock])"
    by (rule getRandTable_trace)
  show "guarded 0 [RLock, RndIntn, RUnlock]" by simp
  show "trace (snd (getRandTableIndex Intn table s)) =
     trace s @ (if fst (getIndexes table s) = [] then [RLock, RUnlock]
                else [RLock, RUnlock, RndIntn])"
    by (rule getRandTableIndex_trace)
  show "\<not> guarded 0 [RLock, RUnlock, RndIntn]" by simp
next
  fix t s1
  assume a: "getRandTable Intn s = (Return (Some t), s1)"
  then have ne: "tables s \<noteq> []"
    by (auto simp: getRandTable_def Let_def)
  from a have "snd (getRandTable Intn s) = s1" by simp
  with getRandTable_trace[of Intn s] ne
  have t1: "trace s1 = trace s @ [RLock, RndIntn, RUnlock]" by simp
  from a have "getRandIndex Intn s = getRandTableIndex Intn (TableName t) s1"
    by (simp add: getRandIndex_def)
  then show "trace (snd (getRandIndex Intn s)) =
        trace s @ [RLock, RndIntn, RUnlock] @
          (if fst (getIndexes (TableName t) s1) = [] then [RLock, RUnlock]
           else [RLock, RUnlock, RndIntn])"
    using getRandTableIndex_trace[of Intn "TableName t" s1] t1 by simp
qed

theorem random_pick_traces_witness:
  "fst (getRandTable Intn_mod (cache_of None [table_t1] t1_catalog)) = Return (Some table_t1) \<and>
   trace (snd (getRandTable Intn_mod (cache_of None [table_t1] t1_catalog))) =
     [RLock, RndIntn, RUnlock] \<and>
   fst (getIndexes (TableName table_t1) (cache_of None [table_t1] t1_catalog)) =
     [(''idx1'', idx1_index)] \<and>
   trace (snd (getRandTableIndex Intn_mod (TableName table_t1)
                 (cache_of None [table_t1] t1_catalog))) = [RLock, RUnlock, RndIntn] \<and>
   trace (snd (getRandIndex Intn_mod (cache_of None [table_t1] t1_catalog))) =
     [RLock, RndIntn, RUnlock, RLock, RUnlock, RndIntn]"
proof -
  let ?s = "cache_of None [table_t1] t1_catalog"
  note w = random_pick_traces[of Intn_mod ?s "TableName table_t1"]
  have ts: "tables ?s = [table_t1]" "trace ?s = []" by (simp_all add: cache_of_def)
  have gi: "fst (getIndexes (TableName table_t1) ?s) = [(''idx1'', idx1_index)]"
    by (simp add: getIndexes_def Let_def cache_of_def t1_catalog_def table_t1_def)
  obtain s1 where s1: "getRandTable Intn_mod ?s = (Return (Some table_t1), s1)"
    by (simp add: getRandTable_def cache_of_def Intn_mod_def Let_def log_def)
  have i1: "indexes s1 = t1_catalog"
    using s1 by (auto simp: getRandTable_def cache_of_def Intn_mod_def Let_def)
  have gi1: "fst (getIndexes (TableName table_t1) s1) = [(''idx1'', idx1_index)]"
    by (simp add: getIndexes_def Let_def i1 t1_catalog_def table_t1_def)
  have 1: "fst (getRandTable Intn_mod ?s) = Return (Some table_t1)" by (simp add: s1)
  have 2: "trace (snd (getRandTable Intn_mod ?s)) = [RLock, RndIntn, RUnlock]"
    using conjunct1[OF w] by (simp add: ts)
  have 3: "trace (snd (getRandTableIndex Intn_mod (TableName table_t1) ?s)) =
      [RLock, RUnlock, RndIntn]"
    using conjunct1[OF conjunct2[OF conjunct2[OF w]]] by (simp add: ts gi)
  have 4: "trace (snd (getRandIndex Intn_mod ?s)) =
      [RLock, RndIntn, RUnlock, RLock, RUnlock, RndIntn]"
    using conjunct2[OF conjunct2[OF conjunct2[OF conjunct2[OF w]]], rule_format, OF s1]
    by (simp add: ts gi1)
  show ?thesis by (intro conjI) (rule 1 2 gi 3 4)+
qed

text \<open>
  C9 as stated fails: on a cache with one table that has one index, \<open>getRandTableIndex\<close>
  draws after the lock is released, and so does \<open>getRandIndex\<close>.
\<close>

theorem random_pick_unlocked_draw_counterexample:
  "trace (snd (getRandTableIndex Intn_mod (TableName table_t1)
                 (cache_of None [table_t1] t1_catalog))) = [RLock, RUnlock, RndIntn] \<and>
   \<not> guarded 0 (trace (snd (getRandTableIndex Intn_mod (TableName table_t1)
                               (cache_of None [table_t1] t1_catalog)))) \<and>
   fst (getRandIndex Intn_mod (cache_of None [table_t1] t1_catalog)) =
     Return (Some (\<lparr>Table = TableName table_t1, Index = ''idx1''\<rparr>, idx1_index)) \<and>
   trace (snd (getRandIndex Intn_mod (cache_of None [table_t1] t1_catalog))) =
     [RLock, RndIntn, RUnlock, RLock, RUnlock, RndIntn] \<and>
   \<not> guarded 0 (trace (snd (getRandIndex Intn_mod (cache_of None [table_t1] t1_catalog))))"
  by (simp add: getRandIndex_def getRandTable_def getRandTableIndex_def getIndexes_def
        cache_of_def Intn_mod_def Let_def log_def t1_catalog_def table_t1_def idx1_index_def
        NewTableName_def)

section \<open>The operator and function catalogs\<close>

subsection \<open>Operators\<close>

lemma slice_at_upd:
  "slice_at (m(k \<mapsto> l)) k' = (if k' = k then l else slice_at m k')"
  by (simp add: slice_at_def)

lemma slice_at_empty: "slice_at Map.empty k = []"
  by (simp add: slice_at_def)

lemma add_operator_slice:
  "slice_at (add_operator op bo m) k =
     slice_at m k @ (if Oid (ReturnType bo) = k then [\<lparr>BinOp = bo, Operator = op\<rparr>] else [])"
  by (simp add: add_operator_def slice_at_upd)

lemma operators_inner:
  "slice_at (fold (add_operator op) ovs m) k =
     slice_at m k @
     filter (\<lambda>e. Oid (ReturnType (BinOp e)) = k) (map (\<lambda>bo. \<lparr>BinOp = bo, Operator = op\<rparr>) ovs)"
  by (induction ovs arbitrary: m) (simp_all add: add_operator_slice)

lemma operators_outer:
  "slice_at (fold (\<lambda>(BinaryOperator, overload) m. fold (add_operator BinaryOperator) overload m)
             BinOps m) k =
     slice_at m k @ filter (\<lambda>e. Oid (ReturnType (BinOp e)) = k) (registry_operators BinOps)"
proof (induction BinOps arbitrary: m)
  case Nil
  show ?case by (simp add: registry_operators_def)
next
  case (Cons a BinOps)
  obtain op ovs where a: "a = (op, ovs)" by (cases a)
  show ?case by (simp add: a Cons operators_inner registry_operators_def)
qed

lemma operators_slice:
  "slice_at (operators BinOps) k =
     filter (\<lambda>e. Oid (ReturnType (BinOp e)) = k) (registry_operators BinOps)"
  unfolding operators_def by (simp add: operators_outer slice_at_empty)

lemma add_operator_dom: "dom (add_operator op bo m) = insert (Oid (ReturnType bo)) (dom m)"
  by (simp add: add_operator_def)

lemma operators_dom_inner:
  "dom (fold (add_operator op) ovs m) = dom m \<union> (\<lambda>bo. Oid (ReturnType bo)) ` set ovs"
  by (induction ovs arbitrary: m) (auto simp: add_operator_dom)

lemma operators_dom_outer:
  "dom (fold (\<lambda>(BinaryOperator, overload) m. fold (add_operator BinaryOperator) overload m)
             BinOps m) =
     dom m \<union> (\<lambda>e. Oid (ReturnType (BinOp e))) ` set (registry_operators BinOps)"
proof (induction BinOps arbitrary: m)
  case Nil
  show ?case by (simp add: registry_operators_def)
next
  case (Cons a BinOps)
  obtain op ovs where a: "a = (op, ovs)" by (cases a)
  show ?case
    by (simp add: a Cons operators_dom_inner registry_operators_def image_Un image_image
          Un_assoc)
qed

lemma count_list_filter:
  "count_list (filter P xs) x = (if P x then count_list xs x else 0)"
  by (induction xs) auto

subsection \<open>Functions\<close>

lemma found_fold:
  "fold (\<lambda>nonArrayTyp found. if x = SemanticType nonArrayTyp then True else found) A b =
     (b \<or> x \<in> SemanticType ` set A)"
  by (induction A arbitrary: b) auto

lemma overload_body_slice:
  "slice_at (overload_body A d ov inner) k =
     slice_at inner k @
     (if overload_allowed A ov \<and> Oid (FixedReturnType ov) = k
      then [\<lparr>fn_def = d, fn_overload = ov\<rparr>] else [])"
  by (simp add: overload_body_def overload_allowed_def found_fold Let_def slice_at_upd)

lemma overloads_fold_slice:
  "slice_at (fold (overload_body A d) ovs inner) k =
     slice_at inner k @
     filter (\<lambda>e. Oid (FixedReturnType (fn_overload e)) = k)
       (map (\<lambda>ov. \<lparr>fn_def = d, fn_overload = ov\<rparr>) (filter (overload_allowed A) ovs))"
  by (induction ovs arbitrary: inner) (simp_all add: overload_body_slice)

lemma functions_at_upd:
  "functions_at (m(c \<mapsto> inner)) c' k = (if c' = c then slice_at inner k else functions_at m c' k)"
  by (simp add: functions_at_def)

lemma functions_at_empty: "functions_at Map.empty c k = []"
  by (simp add: functions_at_def)

lemma functions_at_inner:
  "slice_at (case m c of None \<Rightarrow> Map.empty | Some mm \<Rightarrow> mm) k = functions_at m c k"
  by (simp add: functions_at_def slice_at_def split: option.splits)

lemma def_body_at:
  "functions_at (def_body A d m) c k =
     functions_at m c k @
     filter (\<lambda>e. Class (fn_def e) = c \<and> Oid (FixedReturnType (fn_overload e)) = k)
       (if def_allowed d
        then map (\<lambda>ov. \<lparr>fn_def = d, fn_overload = ov\<rparr>) (filter (overload_allowed A) (Definition d))
        else [])"
proof (cases "c = Class d")
  case True
  have f: "filter (\<lambda>e. Class (fn_def e) = Class d \<and> Oid (FixedReturnType (fn_overload e)) = k)
             (map (\<lambda>ov. \<lparr>fn_def = d, fn_overload = ov\<rparr>) ovs) =
           filter (\<lambda>e. Oid (FixedReturnType (fn_overload e)) = k)
             (map (\<lambda>ov. \<lparr>fn_def = d, fn_overload = ov\<rparr>) ovs)" for ovs
    by (induction ovs) auto
  show ?thesis unfolding True
    by (simp add: def_body_def def_allowed_def Let_def functions_at_upd functions_at_inner
          overloads_fold_slice f)
next
  case False
  have f: "filter (\<lambda>e. Class (fn_def e) = c \<and> Oid (FixedReturnType (fn_overload e)) = k)
             (map (\<lambda>ov. \<lparr>fn_def = d, fn_overload = ov\<rparr>) ovs) = []" for ovs
    using False by (induction ovs) auto
  show ?thesis using False
    by (simp add: def_body_def Let_def functions_at_upd f)
qed

lemma functions_fold_at:
  "functions_at (fold (def_body A) F m) c k =
     functions_at m c k @
     filter (\<lambda>e. Class (fn_def e) = c \<and> Oid (FixedReturnType (fn_overload e)) = k)
       (registry_functions A F)"
  by (induction F arbitrary: m) (simp_all add: def_body_at registry_functions_def)

lemma functions_map_at:
  "functions_at (functions_map A F) c k =
     filter (\<lambda>e. Class (fn_def e) = c \<and> Oid (FixedReturnType (fn_overload e)) = k)
       (registry_functions A F)"
  unfolding functions_map_def by (simp add: functions_fold_at functions_at_empty)

lemma registry_functions_set:
  "e \<in> set (registry_functions A F) \<longleftrightarrow>
     (\<exists>d\<in>set F. \<exists>ov\<in>set (Definition d).
        e = \<lparr>fn_def = d, fn_overload = ov\<rparr> \<and> def_allowed d \<and> overload_allowed A ov)"
  by (auto simp: registry_functions_def)

subsection \<open>The claims about the catalogs\<close>

lemmas operator_examples_defs =
  example_BinOps_def plus_int_def plus_float_def concat_string_def int_T_def float_T_def
  string_T_def

lemmas function_examples_defs =
  example_FunDefs_def example_AnyNonArray_def fn_length_def fn_pg_sleep_def fn_compat_def
  fn_private_def fn_force_def ov_int_def ov_unusable_def ov_array_def int_T_def float_T_def
  string_T_def int_array_T_def

text \<open>
  C7. The list of the operator catalog under a return type is the list of the overloads of
  the registry with that return type, each with its operator, in the order of the registry:
  every overload is there as often as in the registry under its own return type and not at
  all under another, nothing is filtered, and the keys are the return types of the registry.
\<close>

theorem operators_complete:
  "slice_at (operators BinOps) k =
     filter (\<lambda>e. Oid (ReturnType (BinOp e)) = k) (registry_operators BinOps) \<and>
   count_list (slice_at (operators BinOps) k) e =
     (if Oid (ReturnType (BinOp e)) = k then count_list (registry_operators BinOps) e else 0) \<and>
   dom (operators BinOps) = (\<lambda>e. Oid (ReturnType (BinOp e))) ` set (registry_operators BinOps)"
proof (intro conjI)
  show s: "slice_at (operators BinOps) k =
     filter (\<lambda>e. Oid (ReturnType (BinOp e)) = k) (registry_operators BinOps)"
    by (rule operators_slice)
  show "count_list (slice_at (operators BinOps) k) e =
     (if Oid (ReturnType (BinOp e)) = k then count_list (registry_operators BinOps) e else 0)"
    unfolding s by (rule count_list_filter)
  show "dom (operators BinOps) =
      (\<lambda>e. Oid (ReturnType (BinOp e))) ` set (registry_operators BinOps)"
    unfolding operators_def by (simp add: operators_dom_outer)
qed

theorem operators_complete_witness:
  "registry_operators example_BinOps =
     [\<lparr>BinOp = plus_int, Operator = 3\<rparr>, \<lparr>BinOp = plus_float, Operator = 3\<rparr>,
      \<lparr>BinOp = concat_string, Operator = 10\<rparr>] \<and>
   slice_at (operators example_BinOps) 20 = [\<lparr>BinOp = plus_int, Operator = 3\<rparr>] \<and>
   slice_at (operators example_BinOps) 701 = [\<lparr>BinOp = plus_float, Operator = 3\<rparr>] \<and>
   slice_at (operators example_BinOps) 25 = [\<lparr>BinOp = concat_string, Operator = 10\<rparr>] \<and>
   slice_at (operators example_BinOps) 16 = [] \<and>
   dom (operators example_BinOps) = {20, 701, 25}"
proof -
  have r: "registry_operators example_BinOps =
     [\<lparr>BinOp = plus_int, Operator = 3\<rparr>, \<lparr>BinOp = plus_float, Operator = 3\<rparr>,
      \<lparr>BinOp = concat_string, Operator = 10\<rparr>]"
    by (simp add: registry_operators_def example_BinOps_def)
  have 1: "slice_at (operators example_BinOps) 20 = [\<lparr>BinOp = plus_int, Operator = 3\<rparr>]"
    using conjunct1[OF operators_complete[of example_BinOps 20]] unfolding r
    by (simp add: plus_int_def plus_float_def concat_string_def int_T_def float_T_def
          string_T_def)
  have 2: "slice_at (operators example_BinOps) 701 = [\<lparr>BinOp = plus_float, Operator = 3\<rparr>]"
    using conjunct1[OF operators_complete[of example_BinOps 701]] unfolding r
    by (simp add: plus_int_def plus_float_def concat_string_def int_T_def float_T_def
          string_T_def)
  have 3: "slice_at (operators example_BinOps) 25 = [\<lparr>BinOp = concat_string, Operator = 10\<rparr>]"
    using conjunct1[OF operators_complete[of example_BinOps 25]] unfolding r
    by (simp add: plus_int_def plus_float_def concat_string_def int_T_def float_T_def
          string_T_def)
  have 4: "slice_at (operators example_BinOps) 16 = []"
    using conjunct1[OF operators_complete[of example_BinOps 16]] unfolding r
    by (simp add: plus_int_def plus_float_def concat_string_def int_T_def float_T_def
          string_T_def)
  have 5: "dom (operators example_BinOps) = {20, 701, 25}"
    using conjunct2[OF conjunct2[OF operators_complete[of example_BinOps 0 undefined]]]
    unfolding r
    by (simp add: plus_int_def plus_float_def concat_string_def int_T_def float_T_def
          string_T_def)
  show ?thesis by (intro conjI) (rule r 1 2 3 4 5)+
qed

text \<open>
  C6. The list of the function catalog under a class and a return type is the list of the
  admitted overloads of the admitted definitions of the registry with that class and that
  return type, in the order of the registry. So an entry is there exactly when it pairs a
  definition of the registry with one of its overloads, the name of the definition is not
  \<open>pg_sleep\<close> and does not contain \<open>crdb_internal.force_\<close>, its category is not
  \<open>Compatibility\<close>, it is not private, the documentation of the overload does not contain
  \<open>Not usable\<close>, the semantic type of its fixed return type is one of \<open>types.AnyNonArray\<close>,
  and the key is the class of the definition and the identifier of the return type.
\<close>

theorem functions_catalog_filtered:
  "functions_at (functions_map AnyNonArray FunDefs) c k =
     filter (\<lambda>e. Class (fn_def e) = c \<and> Oid (FixedReturnType (fn_overload e)) = k)
       (registry_functions AnyNonArray FunDefs) \<and>
   (e \<in> set (functions_at (functions_map AnyNonArray FunDefs) c k) \<longleftrightarrow>
      (\<exists>d\<in>set FunDefs. \<exists>ov\<in>set (Definition d).
         e = \<lparr>fn_def = d, fn_overload = ov\<rparr> \<and>
         Name d \<noteq> ''pg_sleep'' \<and> \<not> strings_Contains (Name d) ''crdb_internal.force_'' \<and>
         Category d \<noteq> ''Compatibility'' \<and> \<not> Private d \<and>
         \<not> strings_Contains (Info ov) ''Not usable'' \<and>
         SemanticType (FixedReturnType ov) \<in> SemanticType ` set AnyNonArray \<and>
         c = Class d \<and> k = Oid (FixedReturnType ov)))"
proof (intro conjI)
  show s: "functions_at (functions_map AnyNonArray FunDefs) c k =
     filter (\<lambda>e. Class (fn_def e) = c \<and> Oid (FixedReturnType (fn_overload e)) = k)
       (registry_functions AnyNonArray FunDefs)"
    by (rule functions_map_at)
  show "e \<in> set (functions_at (functions_map AnyNonArray FunDefs) c k) \<longleftrightarrow>
      (\<exists>d\<in>set FunDefs. \<exists>ov\<in>set (Definition d).
         e = \<lparr>fn_def = d, fn_overload = ov\<rparr> \<and>
         Name d \<noteq> ''pg_sleep'' \<and> \<not> strings_Contains (Name d) ''crdb_internal.force_'' \<and>
         Category d \<noteq> ''Compatibility'' \<and> \<not> Private d \<and>
         \<not> strings_Contains (Info ov) ''Not usable'' \<and>
         SemanticType (FixedReturnType ov) \<in> SemanticType ` set AnyNonArray \<and>
         c = Class d \<and> k = Oid (FixedReturnType ov))"
    unfolding s
    by (auto simp: registry_functions_set def_allowed_def overload_allowed_def)
qed

theorem functions_catalog_filtered_witness:
  "registry_functions example_AnyNonArray example_FunDefs =
     [\<lparr>fn_def = fn_length, fn_overload = ov_int\<rparr>] \<and>
   functions_at (functions_map example_AnyNonArray example_FunDefs) NormalClass 20 =
     [\<lparr>fn_def = fn_length, fn_overload = ov_int\<rparr>] \<and>
   functions_at (functions_map example_AnyNonArray example_FunDefs) NormalClass 1007 = [] \<and>
   functions_at (functions_map example_AnyNonArray example_FunDefs) AggregateClass 20 = []"
proof -
  have c: "strings_Contains ''crdb_internal.force_panic'' ''crdb_internal.force_''"
    "\<not> strings_Contains ''length'' ''crdb_internal.force_''"
    "strings_Contains ''Not usable; exposed only for compatibility.'' ''Not usable''"
    "\<not> strings_Contains ''Calculates the number of characters.'' ''Not usable''"
    "\<not> strings_Contains ''Returns the lengths.'' ''Not usable''"
    by (simp_all add: strings_Contains_def sublist_code)
  have r: "registry_functions example_AnyNonArray example_FunDefs =
     [\<lparr>fn_def = fn_length, fn_overload = ov_int\<rparr>]"
    by (simp add: registry_functions_def def_allowed_def overload_allowed_def
          function_examples_defs c)
  have k: "Class fn_length = NormalClass" "Oid (FixedReturnType ov_int) = 20"
    by (simp_all add: fn_length_def ov_int_def int_T_def)
  have 1: "functions_at (functions_map example_AnyNonArray example_FunDefs) NormalClass 20 =
     [\<lparr>fn_def = fn_length, fn_overload = ov_int\<rparr>]"
    using conjunct1[OF functions_catalog_filtered[of example_AnyNonArray example_FunDefs
        NormalClass 20]]
    unfolding r by (simp add: k)
  have 2: "functions_at (functions_map example_AnyNonArray example_FunDefs) NormalClass 1007 = []"
    using conjunct1[OF functions_catalog_filtered[of example_AnyNonArray example_FunDefs
        NormalClass 1007]]
    unfolding r by (simp add: k)
  have 3: "functions_at (functions_map example_AnyNonArray example_FunDefs) AggregateClass 20 = []"
    using conjunct1[OF functions_catalog_filtered[of example_AnyNonArray example_FunDefs
        AggregateClass 20]]
    unfolding r by (simp add: k)
  show ?thesis by (intro conjI) (rule r 1 2 3)+
qed

end
